theory Spec2Isabelle
  imports Main "HOL-Library.Sublist"
begin

section \<open>Python primitives used by the detector\<close>

text \<open>
  The program is Python 2 (\<^verbatim>\<open>#!/usr/bin/python\<close>, the output of
  \<^verbatim>\<open>subprocess.check_output\<close> is split as a \<^verbatim>\<open>str\<close>): strings are byte strings,
  modelled as \<^typ>\<open>string\<close>; \<^verbatim>\<open>None\<close> is \<^const>\<open>None\<close>; an exception is the
  left summand of a result.
\<close>

datatype error = ValueError | IndexError

text \<open>\<^verbatim>\<open>s.find(sub)\<close>: the lowest index where \<^verbatim>\<open>sub\<close> starts, or \<^verbatim>\<open>-1\<close>.\<close>

fun find_from :: "string \<Rightarrow> string \<Rightarrow> nat \<Rightarrow> int" where
  "find_from sub [] i = (if sub = [] then int i else - 1)"
| "find_from sub (c # cs) i =
     (if prefix sub (c # cs) then int i else find_from sub cs (Suc i))"

definition str_find :: "string \<Rightarrow> string \<Rightarrow> int" where
  "str_find s sub = find_from sub s 0"

text \<open>\<^verbatim>\<open>sub in s\<close> on strings.\<close>

definition contains :: "string \<Rightarrow> string \<Rightarrow> bool" where
  "contains sub s = (str_find s sub \<ge> 0)"

text \<open>\<^verbatim>\<open>s.split('\n')\<close>: split at every separator, keeping empty pieces.\<close>

fun split_on :: "char \<Rightarrow> string \<Rightarrow> string \<Rightarrow> string list" where
  "split_on sep cur [] = [cur]"
| "split_on sep cur (c # cs) =
     (if c = sep then cur # split_on sep [] cs else split_on sep (cur @ [c]) cs)"

definition newline :: char where
  "newline = CHR 0x0A"

definition split_lines :: "string \<Rightarrow> string list" where
  "split_lines s = split_on newline [] s"

text \<open>
  \<^verbatim>\<open>s.split()\<close>: split at runs of whitespace (space, tab, newline, vertical tab,
  form feed, carriage return), dropping empty pieces.
\<close>

definition isspace :: "char \<Rightarrow> bool" where
  "isspace c = (c \<in> set [CHR '' '', CHR 0x09, CHR 0x0A, CHR 0x0B, CHR 0x0C, CHR 0x0D])"

fun split_ws :: "string \<Rightarrow> string \<Rightarrow> string list" where
  "split_ws cur [] = (if cur = [] then [] else [cur])"
| "split_ws cur (c # cs) =
     (if isspace c then (if cur = [] then split_ws [] cs else cur # split_ws [] cs)
      else split_ws (cur @ [c]) cs)"

definition str_split :: "string \<Rightarrow> string list" where
  "str_split s = split_ws [] s"

text \<open>
  \<^verbatim>\<open>int(x, 10)\<close> on a string, as the library reference has it: an integer literal in
  radix 10, optionally preceded by \<^verbatim>\<open>+\<close> or \<^verbatim>\<open>-\<close> (with no space in between) and
  surrounded by whitespace; anything else raises \<^verbatim>\<open>ValueError\<close>.
\<close>

definition digits :: string where
  "digits = ''0123456789''"

text \<open>The value of a decimal digit is its position in \<^const>\<open>digits\<close>.\<close>

fun position :: "char \<Rightarrow> string \<Rightarrow> nat" where
  "position c [] = 0"
| "position c (x # xs) = (if x = c then 0 else Suc (position c xs))"

definition digit_val :: "char \<Rightarrow> nat" where
  "digit_val c = position c digits"

fun dec_val :: "nat \<Rightarrow> string \<Rightarrow> nat" where
  "dec_val acc [] = acc"
| "dec_val acc (c # cs) = dec_val (10 * acc + digit_val c) cs"

definition isdigit :: "char \<Rightarrow> bool" where
  "isdigit c = (c \<in> set digits)"

definition strip :: "string \<Rightarrow> string" where
  "strip s = rev (dropWhile isspace (rev (dropWhile isspace s)))"

definition py_int :: "string \<Rightarrow> error + int" where
  "py_int x =
     (let s = strip x;
          sign = (case s of [] \<Rightarrow> [] | c # cs \<Rightarrow> if c = CHR ''-'' \<or> c = CHR ''+'' then [c] else []);
          ds = drop (length sign) s
      in if ds \<noteq> [] \<and> list_all isdigit ds then
           Inr (if sign = ''-'' then - int (dec_val 0 ds) else int (dec_val 0 ds))
         else Inl ValueError)"

text \<open>\<^verbatim>\<open>"{}".format(n)\<close> for an integer.\<close>

definition digit_char :: "nat \<Rightarrow> char" where
  "digit_char d = digits ! d"

fun str_nat :: "nat \<Rightarrow> string" where
  "str_nat n = (if n < 10 then [digit_char n] else str_nat (n div 10) @ [digit_char (n mod 10)])"

definition str_int :: "int \<Rightarrow> string" where
  "str_int i = (if i < 0 then CHR ''-'' # str_nat (nat (- i)) else str_nat (nat i))"

text \<open>Truth value of an optional string: \<^verbatim>\<open>None\<close> and \<^verbatim>\<open>''\<close> are false.\<close>

definition truthy :: "string option \<Rightarrow> bool" where
  "truthy v = (v \<noteq> None \<and> v \<noteq> Some [])"

section \<open>The regular expressions of the parser\<close>

text \<open>
  The patterns of the source are concatenations of literal characters, greedy stars over
  a character class (\<^verbatim>\<open>[0-9]*\<close>, \<^verbatim>\<open> *\<close>), the greedy \<^verbatim>\<open>.*\<close> (any character but a
  newline) and capturing groups that are neither nested nor repeated. \<^verbatim>\<open>re.match\<close>
  anchors the pattern at the start of the string only and backtracks: a star first takes
  as many characters as it can and gives them back one at a time.
\<close>

datatype rx = Chr char | Star string | StarAny | Open | Close

type_synonym groups = "string list \<times> string option"

definition push :: "char \<Rightarrow> groups \<Rightarrow> groups" where
  "push c g = (case snd g of None \<Rightarrow> g | Some cur \<Rightarrow> (fst g, Some (cur @ [c])))"

definition open_group :: "groups \<Rightarrow> groups" where
  "open_group g = (fst g, Some [])"

definition close_group :: "groups \<Rightarrow> groups" where
  "close_group g = (case snd g of None \<Rightarrow> g | Some cur \<Rightarrow> (fst g @ [cur], None))"

fun rx_match :: "rx list \<Rightarrow> string \<Rightarrow> groups \<Rightarrow> string list option" where
  "rx_match [] s g = Some (fst g)"
| "rx_match (Chr c # p) [] g = None"
| "rx_match (Chr c # p) (x # xs) g = (if x = c then rx_match p xs (push x g) else None)"
| "rx_match (Open # p) s g = rx_match p s (open_group g)"
| "rx_match (Close # p) s g = rx_match p s (close_group g)"
| "rx_match (Star cls # p) [] g = rx_match p [] g"
| "rx_match (Star cls # p) (x # xs) g =
     (if x \<in> set cls then
        (case rx_match (Star cls # p) xs (push x g) of
           Some r \<Rightarrow> Some r
         | None \<Rightarrow> rx_match p (x # xs) g)
      else rx_match p (x # xs) g)"
| "rx_match (StarAny # p) [] g = rx_match p [] g"
| "rx_match (StarAny # p) (x # xs) g =
     (if x \<noteq> newline then
        (case rx_match (StarAny # p) xs (push x g) of
           Some r \<Rightarrow> Some r
         | None \<Rightarrow> rx_match p (x # xs) g)
      else rx_match p (x # xs) g)"

definition re_match :: "rx list \<Rightarrow> string \<Rightarrow> string list option" where
  "re_match p s = rx_match p s ([], None)"

text \<open>\<^verbatim>\<open>re.search\<close>: the first position, from the left, where the pattern matches.\<close>

fun re_search :: "rx list \<Rightarrow> string \<Rightarrow> string list option" where
  "re_search p [] = re_match p []"
| "re_search p (x # xs) =
     (case re_match p (x # xs) of Some r \<Rightarrow> Some r | None \<Rightarrow> re_search p xs)"

text \<open>The number of groups a pattern closes; the flag says whether a group is open.\<close>

fun group_count :: "rx list \<Rightarrow> bool \<Rightarrow> nat" where
  "group_count [] opened = 0"
| "group_count (Open # p) opened = group_count p True"
| "group_count (Close # p) opened = (if opened then 1 else 0) + group_count p False"
| "group_count (Chr c # p) opened = group_count p opened"
| "group_count (Star cls # p) opened = group_count p opened"
| "group_count (StarAny # p) opened = group_count p opened"

definition lit :: "string \<Rightarrow> rx list" where
  "lit s = map Chr s"

definition lower :: string where
  "lower = ''abcdefghijklmnopqrstuvwxyz''"

definition upper :: string where
  "upper = ''ABCDEFGHIJKLMNOPQRSTUVWXYZ''"

text \<open>\<^verbatim>\<open>[a-zA-Z0-9_-]\<close>\<close>

definition word_class :: string where
  "word_class = lower @ upper @ digits @ ''_-''"

text \<open>\<^verbatim>\<open>[\?a-zA-Z0-9_-]\<close>, the class of the called-function name.\<close>

definition func_class :: string where
  "func_class = ''?'' @ word_class"

text \<open>\<^verbatim>\<open>[,/.:_\-a-zA-Z0-9]\<close>, the class of \<^verbatim>\<open>file_pattern\<close>.\<close>

definition file_class :: string where
  "file_class = '',/.:_-'' @ lower @ upper @ digits"

definition hex_class :: string where
  "hex_class = ''abcdef'' @ digits"

text \<open>\<^verbatim>\<open>data[i]\<close> on the tuple of groups: out of range raises \<^verbatim>\<open>IndexError\<close>.\<close>

definition item :: "string list \<Rightarrow> nat \<Rightarrow> error + string" where
  "item data i = (if i < length data then Inr (data ! i) else Inl IndexError)"

section \<open>Data model\<close>

text \<open>
  Everything the program prints goes to standard output; each constructor is one
  \<^verbatim>\<open>print\<close> call of the source with the arguments of its format string.
\<close>

datatype msg =
    Skipping_invalid_frame string
  | No_match_for_thread string
  | No_thread_found_with_lwp string
  | Threads_are "string list"
  | Did_not_find "string option" "string list"
  | Did_not_match_the_pattern string "rx list"
  | No_match_found_for int int
  | Unable_to_handle_type "string option"
  | No_locked_threads
  | No_owner_for string
  | Rule
  | Is_waiting_for string "string option" string
  | Backtrace_header string
  | Backtrace_frame string
  | Deadlock_between string string

text \<open>
  \<^verbatim>\<open>class Frame\<close>. The back references \<^verbatim>\<open>thread\<close> and \<^verbatim>\<open>gdb\<close> are passed to the
  functions that use them; \<^verbatim>\<open>index\<close> is \<^verbatim>\<open>-1\<close> until the line has been parsed.
\<close>

record frame =
  raw :: string
  index :: int
  addr :: "string option"
  in_func :: "string option"
  args :: "string option"
  from_file :: "string option"
  at_file :: "string option"
  locked :: bool
  lock_type :: "string option"

text \<open>\<^verbatim>\<open>class Thread\<close>.\<close>

record thread =
  name :: "string option"
  index :: int
  addr :: string
  lwp :: string
  frames :: "frame list"
  locked :: bool
  locked_index :: "int option"
  lock_func :: "string option"
  lock_owner_lwp :: "string option"

text \<open>
  \<^verbatim>\<open>class GDB\<close>: the fields the analysis writes. \<^verbatim>\<open>deadlock_threads\<close> holds pairs of
  references to elements of \<^verbatim>\<open>threads\<close>; it is filled after the last mutation of a
  thread, so a pair of thread values records the same information.
\<close>

record gdb =
  threads :: "thread list"
  num_locked :: nat
  deadlock_threads :: "(thread \<times> thread) list"

text \<open>
  \<^verbatim>\<open>GDB.get_output\<close> runs the debugger on a list of commands and returns its output. The
  debugger is outside the program: it is a parameter, a function from the command list
  to the text.
\<close>

type_synonym session = "string list \<Rightarrow> string"

section \<open>Lock Resolver: \<^verbatim>\<open>Frame.parse_locked_state\<close>\<close>

definition sep :: string where
  "sep = ''=======''"

text \<open>
  The loop over the lines of the register dump, up to its \<^verbatim>\<open>break\<close>: the result is the
  \<^verbatim>\<open>mem_addr\<close> of the line at which the branch \<^verbatim>\<open>if found_special\<close> is entered, and
  \<^const>\<open>None\<close> when the lines run out first.
\<close>

fun scan_registers :: "bool \<Rightarrow> bool \<Rightarrow> string list \<Rightarrow> string option" where
  "scan_registers found_sep found_special [] = None"
| "scan_registers found_sep found_special (line # lines) =
     (if \<not> found_sep then
        (if str_find line sep = 0 then scan_registers True found_special lines
         else scan_registers found_sep found_special lines)
      else
        (case str_split line of
           [register, mem_addr, val] \<Rightarrow>
             if mem_addr = ''0x80'' \<and> val = ''128'' then scan_registers found_sep True lines
             else if found_special then Some mem_addr
             else scan_registers found_sep found_special lines
         | _ \<Rightarrow> scan_registers found_sep found_special lines))"

definition owner_pattern :: "rx list" where
  "owner_pattern = lit ''__owner = '' @ [Open, Star digits, Close]"

text \<open>
  The body of the branch \<^verbatim>\<open>if found_special\<close>: the value assigned to
  \<^verbatim>\<open>thread.lock_owner_lwp\<close> (\<^const>\<open>None\<close>: no assignment) and the diagnostics.
\<close>

definition read_owner ::
  "session \<Rightarrow> int \<Rightarrow> int \<Rightarrow> string option \<Rightarrow> string \<Rightarrow> string option \<times> msg list" where
  "read_owner get_output thread_index frame_index ltype mem_addr =
     (if ltype = Some ''pthread_mutex_t'' then
        (let info = get_output [''p *(pthread_mutex_t*)'' @ mem_addr] in
         case re_search owner_pattern info of
           Some grps \<Rightarrow> (Some (hd grps), [])
         | None \<Rightarrow> (None, [No_match_found_for thread_index frame_index]))
      else (None, [Unable_to_handle_type ltype]))"

definition parse_locked_state ::
  "session \<Rightarrow> int \<Rightarrow> int \<Rightarrow> string option \<Rightarrow> string option \<times> msg list" where
  "parse_locked_state get_output thread_index frame_index ltype =
     (let lines = split_lines (get_output
            [''thread '' @ str_int thread_index,
             ''frame '' @ str_int frame_index,
             ''echo '' @ sep @ [newline],
             ''info reg''])
      in case scan_registers False False lines of
           None \<Rightarrow> (None, [])
         | Some mem_addr \<Rightarrow> read_owner get_output thread_index frame_index ltype mem_addr)"

section \<open>Frame Classifier: \<^verbatim>\<open>Frame.parse\<close>\<close>

definition base_pattern :: "rx list" where
  "base_pattern =
     [Chr CHR ''#'', Open, Star digits, Close, Star '' '', Open, Star word_class, Close, StarAny]"

definition in_pattern :: "rx list" where
  "in_pattern = lit ''in '' @ [Open, Star func_class, Close] @ lit '' ('' @ [StarAny] @ lit '')''"

definition at_pattern :: "rx list" where
  "at_pattern = lit ''at '' @ [Open, Star file_class, Close]"

definition from_pattern :: "rx list" where
  "from_pattern = lit ''from '' @ [Open, Star file_class, Close]"

text \<open>The keywords found in the line, in the order the source appends them.\<close>

definition found_keywords :: "string \<Rightarrow> string list" where
  "found_keywords r =
     (if str_find r '' in '' \<ge> 0 then [''in''] else []) @
     (if str_find r '' from '' \<ge> 0 then [''from''] else []) @
     (if str_find r '' at '' \<ge> 0 then [''at''] else [])"

definition frame_pattern :: "string list \<Rightarrow> rx list" where
  "frame_pattern found =
     base_pattern @
     (if ''in'' \<in> set found then lit '' '' @ in_pattern else []) @
     (if ''from'' \<in> set found then lit '' '' @ from_pattern else []) @
     (if ''at'' \<in> set found then lit '' '' @ at_pattern else [])"

text \<open>The frame as \<^verbatim>\<open>Frame.__init__\<close> leaves it before it calls \<^verbatim>\<open>parse\<close>.\<close>

definition new_frame :: "string \<Rightarrow> frame" where
  "new_frame data =
     \<lparr>raw = data, index = - 1, addr = None, in_func = None, args = None,
      from_file = None, at_file = None, locked = False, lock_type = None\<rparr>"

text \<open>
  The assignments of the locator: the branch \<^verbatim>\<open>elif 'at':\<close> tests a non-empty string
  literal, which is always true.
\<close>

definition set_locators :: "string list \<Rightarrow> string list \<Rightarrow> frame \<Rightarrow> error + frame" where
  "set_locators found data f =
     (if ''in'' \<in> set found then
        (case item data 2 of
           Inl e \<Rightarrow> Inl e
         | Inr d2 \<Rightarrow>
             let f1 = f\<lparr>in_func := Some d2\<rparr> in
             if ''from'' \<in> set found then
               (case item data 3 of Inl e \<Rightarrow> Inl e | Inr d3 \<Rightarrow> Inr (f1\<lparr>from_file := Some d3\<rparr>))
             else if ''at'' \<in> set found then
               (case item data 3 of Inl e \<Rightarrow> Inl e | Inr d3 \<Rightarrow> Inr (f1\<lparr>at_file := Some d3\<rparr>))
             else Inr f1)
      else if True then
        (case item data 2 of Inl e \<Rightarrow> Inl e | Inr d2 \<Rightarrow> Inr (f\<lparr>at_file := Some d2\<rparr>))
      else Inr f)"

text \<open>The classification of the called function: which lock, if any, the frame waits in.\<close>

definition classify :: "frame \<Rightarrow> frame" where
  "classify f =
     (if truthy (in_func f) then
        (if contains ''pthread_mutex_lock'' (the (in_func f)) then
           f\<lparr>frame.locked := True, lock_type := Some ''pthread_mutex_t''\<rparr>
         else if contains ''pthread_rwlock'' (the (in_func f)) then
           f\<lparr>frame.locked := True, lock_type := Some ''pthread_rwlock_t''\<rparr>
         else f)
      else f)"

text \<open>
  \<^verbatim>\<open>Frame(thread, line)\<close>: the frame, the value \<^verbatim>\<open>parse_locked_state\<close> assigns to the
  thread's \<^verbatim>\<open>lock_owner_lwp\<close> (if it assigns one) and the diagnostics; or the exception.
\<close>

definition parse :: "session \<Rightarrow> int \<Rightarrow> string \<Rightarrow> error + (frame \<times> string option \<times> msg list)" where
  "parse get_output thread_index line =
     (let f = new_frame line;
          found = found_keywords line;
          pattern = frame_pattern found
      in case re_match pattern line of
           None \<Rightarrow> Inr (f, None, [Did_not_match_the_pattern line pattern])
         | Some data \<Rightarrow>
             (case item data 0 of
                Inl e \<Rightarrow> Inl e
              | Inr d0 \<Rightarrow>
                  (case py_int d0 of
                     Inl e \<Rightarrow> Inl e
                   | Inr i \<Rightarrow>
                       (case item data 1 of
                          Inl e \<Rightarrow> Inl e
                        | Inr d1 \<Rightarrow>
                            (case set_locators found data (f\<lparr>frame.index := i, frame.addr := Some d1\<rparr>) of
                               Inl e \<Rightarrow> Inl e
                             | Inr f1 \<Rightarrow>
                                 let f2 = classify f1 in
                                 if frame.locked f2 then
                                   (let (owner, out) =
                                          parse_locked_state get_output thread_index
                                            (frame.index f2) (lock_type f2)
                                    in Inr (f2, owner, out))
                                 else Inr (f2, None, []))))))"

section \<open>Threads: \<^verbatim>\<open>Thread.__init__\<close>, \<^verbatim>\<open>Thread.add_frame\<close>, \<^verbatim>\<open>Thread.readable\<close>\<close>

definition new_thread :: "string \<Rightarrow> string \<Rightarrow> string \<Rightarrow> error + thread" where
  "new_thread idx a l =
     (case py_int idx of
        Inl e \<Rightarrow> Inl e
      | Inr i \<Rightarrow>
          Inr \<lparr>name = None, index = i, addr = a, lwp = l, frames = [], locked = False,
               locked_index = None, lock_func = None, lock_owner_lwp = None\<rparr>)"

text \<open>
  \<^verbatim>\<open>add_frame\<close> also counts in \<^verbatim>\<open>gdb.num_locked\<close>: the counter is passed in and
  returned.
\<close>

definition add_frame ::
  "session \<Rightarrow> thread \<Rightarrow> nat \<Rightarrow> string \<Rightarrow> error + (thread \<times> nat \<times> msg list)" where
  "add_frame get_output th n line =
     (case parse get_output (thread.index th) line of
        Inl e \<Rightarrow> Inl e
      | Inr (f, owner, out) \<Rightarrow>
          let th1 = (case owner of None \<Rightarrow> th | Some l \<Rightarrow> th\<lparr>lock_owner_lwp := Some l\<rparr>);
              out1 = out @ (if frame.index f = - 1 then [Skipping_invalid_frame line] else []);
              th2 = (if frame.locked f
                     then th1\<lparr>thread.locked := True, locked_index := Some (frame.index f)\<rparr>
                     else th1);
              n2 = (if frame.locked f then n + 1 else n)
          in Inr (th2\<lparr>frames := frames th2 @ [f]\<rparr>, n2, out1))"

definition readable :: "thread \<Rightarrow> string" where
  "readable th =
     ''Thread #'' @ str_int (thread.index th) @
     (if truthy (name th) then '' '' @ the (name th) else [])"

definition print_backtrace :: "thread \<Rightarrow> msg list" where
  "print_backtrace th = Backtrace_header (readable th) # map (\<lambda>f. Backtrace_frame (raw f)) (frames th)"

section \<open>Snapshot Parser: \<^verbatim>\<open>GDB.parse_thread_state\<close>\<close>

text \<open>
  \<^verbatim>\<open>GDB.thread_by_lwp\<close> returns a reference to the first thread with the given LWP; a
  reference is the position in \<^verbatim>\<open>self.threads\<close>. The argument may be \<^verbatim>\<open>None\<close>, which
  equals no LWP.
\<close>

fun thread_pos :: "thread list \<Rightarrow> string option \<Rightarrow> nat option" where
  "thread_pos [] l = None"
| "thread_pos (th # ths) l =
     (if Some (lwp th) = l then Some 0 else map_option Suc (thread_pos ths l))"

definition thread_by_lwp :: "thread list \<Rightarrow> string option \<Rightarrow> nat option \<times> msg list" where
  "thread_by_lwp ths l =
     (case thread_pos ths l of
        Some i \<Rightarrow> (Some i, [])
      | None \<Rightarrow> (None, [Did_not_find l (map lwp ths)]))"

definition set_thread_name :: "thread list \<Rightarrow> string \<Rightarrow> string \<Rightarrow> thread list \<times> msg list" where
  "set_thread_name ths l n =
     (let (r, out) = thread_by_lwp ths (Some l) in
      case r of
        Some i \<Rightarrow> (ths[i := (ths ! i)\<lparr>name := Some n\<rparr>], out)
      | None \<Rightarrow> (ths, out @ [No_thread_found_with_lwp l, Threads_are (map lwp ths)]))"

definition thread_pattern :: "rx list" where
  "thread_pattern =
     lit ''Thread '' @ [Open, Star digits, Close] @
     lit '' (Thread '' @ [Open] @ lit ''0x'' @ [Star hex_class, Close] @
     lit '' (LWP '' @ [Open, Star digits, Close] @ lit ''))''"

definition name_pattern :: "rx list" where
  "name_pattern =
     lit ''(LWP '' @ [Open, Star digits, Close] @ lit '') '' @
     [Chr (CHR 0x22), Open, Star word_class, Close, Chr (CHR 0x22)]"

definition emit :: "msg list \<Rightarrow> error + (gdb \<times> msg list) \<Rightarrow> error + (gdb \<times> msg list)" where
  "emit out r = (case r of Inl e \<Rightarrow> Inl e | Inr (g, out') \<Rightarrow> Inr (g, out @ out'))"

text \<open>
  The first loop of \<^verbatim>\<open>parse_thread_state\<close>. The variable \<^verbatim>\<open>thread\<close> is \<^verbatim>\<open>None\<close> or a
  reference to the thread being read, which is already in \<^verbatim>\<open>self.threads\<close>.
\<close>

fun parse_lines :: "session \<Rightarrow> string list \<Rightarrow> gdb \<Rightarrow> nat option \<Rightarrow> error + (gdb \<times> msg list)" where
  "parse_lines get_output [] g cur = Inr (g, [])"
| "parse_lines get_output (line # lines) g cur =
     (case cur of
        Some i \<Rightarrow>
          (case line of
             [] \<Rightarrow> parse_lines get_output lines g None
           | c # _ \<Rightarrow>
               if c \<noteq> CHR ''#'' then
                 emit [Skipping_invalid_frame line] (parse_lines get_output lines g cur)
               else
                 (case add_frame get_output (threads g ! i) (num_locked g) line of
                    Inl e \<Rightarrow> Inl e
                  | Inr (th, n, out) \<Rightarrow>
                      emit out (parse_lines get_output lines
                        (g\<lparr>threads := (threads g)[i := th], num_locked := n\<rparr>) cur)))
      | None \<Rightarrow>
          if str_find line ''Thread '' = 0 then
            (case re_match thread_pattern line of
               None \<Rightarrow> emit [No_match_for_thread line] (parse_lines get_output lines g cur)
             | Some data \<Rightarrow>
                 (case item data 0 of Inl e \<Rightarrow> Inl e | Inr d0 \<Rightarrow>
                 (case item data 1 of Inl e \<Rightarrow> Inl e | Inr d1 \<Rightarrow>
                 (case item data 2 of Inl e \<Rightarrow> Inl e | Inr d2 \<Rightarrow>
                 (case new_thread d0 d1 d2 of
                    Inl e \<Rightarrow> Inl e
                  | Inr th \<Rightarrow>
                      parse_lines get_output lines (g\<lparr>threads := threads g @ [th]\<rparr>)
                        (Some (length (threads g))))))))
          else parse_lines get_output lines g cur)"

text \<open>The second loop: the names of the thread listing.\<close>

fun name_lines :: "string list \<Rightarrow> thread list \<Rightarrow> thread list \<times> msg list" where
  "name_lines [] ths = (ths, [])"
| "name_lines (line # lines) ths =
     (case re_search name_pattern line of
        Some grps \<Rightarrow>
          (let (ths1, out1) = set_thread_name ths (grps ! 0) (grps ! 1);
               (ths2, out2) = name_lines lines ths1
           in (ths2, out1 @ out2))
      | None \<Rightarrow> name_lines lines ths)"

section \<open>\<^verbatim>\<open>GDB.set_locks\<close>\<close>

text \<open>
  \<^verbatim>\<open>frame.index > th.locked_index\<close>: in Python 2 every integer is greater than \<^verbatim>\<open>None\<close>.
\<close>

definition above :: "int \<Rightarrow> int option \<Rightarrow> bool" where
  "above i li = (case li of None \<Rightarrow> True | Some j \<Rightarrow> i > j)"

fun scan_lock_func :: "int option \<Rightarrow> frame list \<Rightarrow> string option" where
  "scan_lock_func li [] = None"
| "scan_lock_func li (f # fs) =
     (if above (frame.index f) li then
        (if truthy (at_file f) \<and> truthy (in_func f) then in_func f
         else scan_lock_func li fs)
      else scan_lock_func li fs)"

definition set_lock :: "thread \<Rightarrow> thread" where
  "set_lock th =
     (if thread.locked th then th\<lparr>lock_func := scan_lock_func (locked_index th) (frames th)\<rparr>
      else th)"

definition set_locks :: "thread list \<Rightarrow> thread list" where
  "set_locks ths = map set_lock ths"

section \<open>Wait graph and deadlocks: \<^verbatim>\<open>GDB.find_deadlock\<close>\<close>

text \<open>One iteration: what is appended to \<^verbatim>\<open>deadlock_threads\<close> for the thread \<^verbatim>\<open>th\<close>.\<close>

definition deadlock_step :: "thread list \<Rightarrow> thread \<Rightarrow> (thread \<times> thread) list \<times> msg list" where
  "deadlock_step ths th =
     (if thread.locked th then
        (let (r, out) = thread_by_lwp ths (lock_owner_lwp th) in
         case r of
           None \<Rightarrow> ([], out)
         | Some i \<Rightarrow>
             let owner = ths ! i in
             if thread.locked owner \<and> truthy (lock_owner_lwp owner) \<and>
                lock_owner_lwp owner = Some (lwp th)
             then ([(th, owner)], out)
             else ([], out))
      else ([], []))"

fun deadlock_loop :: "thread list \<Rightarrow> thread list \<Rightarrow> (thread \<times> thread) list \<times> msg list" where
  "deadlock_loop ths [] = ([], [])"
| "deadlock_loop ths (th # rest) =
     (let (d, out) = deadlock_step ths th;
          (ds, outs) = deadlock_loop ths rest
      in (d @ ds, out @ outs))"

definition find_deadlock :: "gdb \<Rightarrow> gdb \<times> msg list" where
  "find_deadlock g =
     (let (ds, out) = deadlock_loop (threads g) (threads g)
      in (g\<lparr>deadlock_threads := deadlock_threads g @ ds\<rparr>, out))"

definition new_gdb :: gdb where
  "new_gdb = \<lparr>threads = [], num_locked = 0, deadlock_threads = []\<rparr>"

definition parse_thread_state :: "session \<Rightarrow> gdb \<Rightarrow> error + (gdb \<times> msg list)" where
  "parse_thread_state get_output g =
     (case parse_lines get_output (split_lines (get_output [''thread apply all bt''])) g None of
        Inl e \<Rightarrow> Inl e
      | Inr (g1, out1) \<Rightarrow>
          let (ths2, out2) = name_lines (split_lines (get_output [''info threads''])) (threads g1);
              g2 = g1\<lparr>threads := set_locks ths2\<rparr>;
              (g3, out3) = find_deadlock g2
          in Inr (g3, out1 @ out2 @ out3))"

section \<open>Reporter: \<^verbatim>\<open>GDB.print_status\<close>\<close>

text \<open>\<^verbatim>\<open>[int(x, 10) for x in only_show]\<close>: the first entry that is no integer raises.\<close>

fun ints_of :: "string list \<Rightarrow> error + int list" where
  "ints_of [] = Inr []"
| "ints_of (x # xs) =
     (case py_int x of
        Inl e \<Rightarrow> Inl e
      | Inr i \<Rightarrow> (case ints_of xs of Inl e \<Rightarrow> Inl e | Inr is \<Rightarrow> Inr (i # is)))"

text \<open>The filter loop: the list \<^verbatim>\<open>threads\<close> of the threads to show.\<close>

fun filter_threads :: "string list \<Rightarrow> thread list \<Rightarrow> error + thread list" where
  "filter_threads only_show [] = Inr []"
| "filter_threads only_show (th # ths) =
     (if \<not> thread.locked th then filter_threads only_show ths
      else
        (case ints_of only_show of
           Inl e \<Rightarrow> Inl e
         | Inr is \<Rightarrow>
             (case filter_threads only_show ths of
                Inl e \<Rightarrow> Inl e
              | Inr rest \<Rightarrow>
                  Inr ((if only_show = [] then [th] else []) @
                       (if thread.index th \<in> set is then [th] else []) @
                       (if truthy (name th) \<and> the (name th) \<in> set only_show then [th] else []) @
                       rest))))"

text \<open>One iteration of the loop over the threads to show.\<close>

definition show_thread :: "thread list \<Rightarrow> bool \<Rightarrow> thread \<Rightarrow> msg list" where
  "show_thread ths show_bt th =
     (let (r, out) = thread_by_lwp ths (lock_owner_lwp th) in
      case r of
        None \<Rightarrow> out @ [No_owner_for (readable th)]
      | Some i \<Rightarrow>
          let owner = ths ! i in
          out @ (if show_bt then [Rule] else []) @
          [Is_waiting_for (readable th) (lock_func th) (readable owner)] @
          (if show_bt then print_backtrace th @ print_backtrace owner else []))"

definition print_status :: "gdb \<Rightarrow> bool \<Rightarrow> string list \<Rightarrow> error + msg list" where
  "print_status g show_bt only_show =
     (if num_locked g = 0 then Inr [No_locked_threads]
      else
        (case filter_threads only_show (threads g) of
           Inl e \<Rightarrow> Inl e
         | Inr shown \<Rightarrow>
             Inr (concat (map (show_thread (threads g) show_bt) shown) @
                  map (\<lambda>dl. Deadlock_between (readable (fst dl)) (readable (snd dl)))
                    (deadlock_threads g))))"

section \<open>The wait graph\<close>

text \<open>
  A blocked thread whose owner LWP is the LWP of a thread of the snapshot contributes the
  edge from its own LWP to the owner's; the wait graph is the list of these edges.
\<close>

definition wait_edge :: "thread list \<Rightarrow> thread \<Rightarrow> (string \<times> string) option" where
  "wait_edge ths th =
     (if thread.locked th then
        (case thread_pos ths (lock_owner_lwp th) of
           None \<Rightarrow> None
         | Some i \<Rightarrow> Some (lwp th, lwp (ths ! i)))
      else None)"

definition wait_edges :: "thread list \<Rightarrow> (string \<times> string) list" where
  "wait_edges ths = List.map_filter (wait_edge ths) ths"

text \<open>
  A directed cycle of the wait graph: the threads \<open>cyc\<close> of the snapshot (whose LWPs are
  unique), pairwise different, each blocked and each waiting for the LWP of the next, the
  last for the first; no other thread of the snapshot contributes an edge.
\<close>

definition wait_cycle :: "thread list \<Rightarrow> thread list \<Rightarrow> bool" where
  "wait_cycle ths cyc =
     (distinct (map lwp ths) \<and> distinct cyc \<and> set cyc \<subseteq> set ths \<and>
      list_all (\<lambda>i. thread.locked (cyc ! i) \<and>
                    lock_owner_lwp (cyc ! i) = Some (lwp (cyc ! (Suc i mod length cyc))))
        [0 ..< length cyc] \<and>
      list_all (\<lambda>th. th \<in> set cyc \<or> wait_edge ths th = None) ths)"

section \<open>Concrete snapshots\<close>

text \<open>
  The frame of a thread that waits in \<^verbatim>\<open>pthread_mutex_lock\<close>, as \<^const>\<open>parse\<close> builds it.
\<close>

definition mutex_frame :: frame where
  "mutex_frame =
     \<lparr>raw = ''#0  0x1 in pthread_mutex_lock () from /lib/libpthread.so.0'', index = 0,
      addr = Some ''0x1'', in_func = Some ''pthread_mutex_lock'', args = None,
      from_file = Some ''/lib/libpthread.so.0'', at_file = None, locked = True,
      lock_type = Some ''pthread_mutex_t''\<rparr>"

text \<open>A thread blocked on a mutex whose \<^verbatim>\<open>__owner\<close> is the given LWP.\<close>

definition blocked_thread :: "int \<Rightarrow> string \<Rightarrow> string \<Rightarrow> thread" where
  "blocked_thread i l owner =
     \<lparr>name = None, index = i, addr = ''0x7f0'', lwp = l, frames = [mutex_frame],
      locked = True, locked_index = Some 0, lock_func = None, lock_owner_lwp = Some owner\<rparr>"

definition main_frame :: frame where
  "main_frame =
     \<lparr>raw = ''#0  0x2 in main () at dead.c:40'', index = 0,
      addr = Some ''0x2'', in_func = Some ''main'', args = None,
      from_file = None, at_file = Some ''dead.c:40'', locked = False, lock_type = None\<rparr>"

text \<open>A thread that is not blocked.\<close>

definition running_thread :: "int \<Rightarrow> string \<Rightarrow> thread" where
  "running_thread i l =
     \<lparr>name = None, index = i, addr = ''0x7f0'', lwp = l, frames = [main_frame],
      locked = False, locked_index = None, lock_func = None, lock_owner_lwp = None\<rparr>"

text \<open>Scenario A: two threads, each blocked on a mutex owned by the other.\<close>

definition scenario_A :: gdb where
  "scenario_A =
     \<lparr>threads = [blocked_thread 1 ''101'' ''102'', blocked_thread 2 ''102'' ''101''],
      num_locked = 2, deadlock_threads = []\<rparr>"

text \<open>Scenario B: three threads, each blocked on a mutex owned by the next.\<close>

definition scenario_B :: gdb where
  "scenario_B =
     \<lparr>threads = [blocked_thread 1 ''101'' ''102'', blocked_thread 2 ''102'' ''103'',
                 blocked_thread 3 ''103'' ''101''],
      num_locked = 3, deadlock_threads = []\<rparr>"

text \<open>A chain without a cycle: thread 1 waits for thread 2, which runs.\<close>

definition scenario_chain :: gdb where
  "scenario_chain =
     \<lparr>threads = [blocked_thread 1 ''101'' ''102'', running_thread 2 ''102''],
      num_locked = 1, deadlock_threads = []\<rparr>"

text \<open>
  Debugger sessions with these snapshots: each thread has the one frame in
  \<^verbatim>\<open>pthread_mutex_lock\<close>; the register dump of thread \<open>i\<close> names the mutex at address
  \<^verbatim>\<open>0x60i\<close>, whose structure dump names the owner.
\<close>

definition mutex_stack :: "string \<Rightarrow> string \<Rightarrow> string" where
  "mutex_stack i l =
     ''Thread '' @ i @ '' (Thread 0x7f0 (LWP '' @ l @ ''))'' @ [newline] @
     ''#0  0x1 in pthread_mutex_lock () from /lib/libpthread.so.0'' @ [newline] @
     [newline]"

definition register_query :: "string \<Rightarrow> string list" where
  "register_query i = [''thread '' @ i, ''frame 0'', ''echo ======='' @ [newline], ''info reg'']"

definition mutex_registers :: "string \<Rightarrow> string" where
  "mutex_registers a =
     ''======='' @ [newline] @ ''rsi 0x80 128'' @ [newline] @ ''rdi '' @ a @ '' 6299808'' @ [newline]"

definition mutex_dump :: "string \<Rightarrow> string" where
  "mutex_dump owner =
     ''$1 = {__data = {__lock = 2, __count = 0, __owner = '' @ owner @ '', __nusers = 1}}''"

definition session_A :: session where
  "session_A cmds =
     (if cmds = [''thread apply all bt''] then mutex_stack ''1'' ''101'' @ mutex_stack ''2'' ''102''
      else if cmds = register_query ''1'' then mutex_registers ''0x601''
      else if cmds = register_query ''2'' then mutex_registers ''0x602''
      else if cmds = [''p *(pthread_mutex_t*)0x601''] then mutex_dump ''102''
      else if cmds = [''p *(pthread_mutex_t*)0x602''] then mutex_dump ''101''
      else [])"

definition session_B :: session where
  "session_B cmds =
     (if cmds = [''thread apply all bt''] then
        mutex_stack ''1'' ''101'' @ mutex_stack ''2'' ''102'' @ mutex_stack ''3'' ''103''
      else if cmds = register_query ''1'' then mutex_registers ''0x601''
      else if cmds = register_query ''2'' then mutex_registers ''0x602''
      else if cmds = register_query ''3'' then mutex_registers ''0x603''
      else if cmds = [''p *(pthread_mutex_t*)0x601''] then mutex_dump ''102''
      else if cmds = [''p *(pthread_mutex_t*)0x602''] then mutex_dump ''103''
      else if cmds = [''p *(pthread_mutex_t*)0x603''] then mutex_dump ''101''
      else [])"

section \<open>The register scan, read as a search\<close>








section \<open>The caller of the lock, as C8 words it\<close>

text \<open>
  The called-function name of the first frame, in stack order, whose index is greater than
  the index of the blocking frame.
\<close>

definition claimed_lock_func :: "thread \<Rightarrow> string option" where
  "claimed_lock_func th =
     (case List.find (\<lambda>f. above (frame.index f) (locked_index th)) (frames th) of
        None \<Rightarrow> None
      | Some f \<Rightarrow> in_func f)"

text \<open>
  What \<^const>\<open>set_lock\<close> records: the first such frame that also has a source location and
  a function name.
\<close>

definition source_caller :: "thread \<Rightarrow> string option" where
  "source_caller th =
     (case List.find (\<lambda>f. above (frame.index f) (locked_index th) \<and>
                          truthy (at_file f) \<and> truthy (in_func f)) (frames th) of
        None \<Rightarrow> None
      | Some f \<Rightarrow> in_func f)"

text \<open>
  A debugger session: thread 2 waits in \<^verbatim>\<open>pthread_mutex_lock\<close>, called from a
  library function without source location, called from \<^verbatim>\<open>worker\<close>; the mutex is owned
  by LWP 101.
\<close>

definition library_backtrace :: string where
  "library_backtrace =
     ''Thread 2 (Thread 0x7f1 (LWP 102))'' @ [newline] @
     ''#0  0x01 in pthread_mutex_lock () from /lib/libpthread.so.0'' @ [newline] @
     ''#1  0x02 in helper (x=1) from /lib/libfoo.so'' @ [newline] @
     ''#2  0x03 in worker (arg=0x0) at dead.c:20'' @ [newline] @
     [newline] @
     ''Thread 1 (Thread 0x7f2 (LWP 101))'' @ [newline] @
     ''#0  0x04 in main () at dead.c:40'' @ [newline]"

definition library_registers :: string where
  "library_registers =
     ''[Switching to thread 2 (Thread 0x7f1 (LWP 102))]'' @ [newline] @
     ''======='' @ [newline] @
     ''rax 0xfffffffffffffe00 -512'' @ [newline] @
     ''rsi 0x80 128'' @ [newline] @
     ''eflags 0x246 [ PF ZF IF ]'' @ [newline] @
     ''rdi 0x6020a0 6299808'' @ [newline]"

definition library_session :: session where
  "library_session cmds =
     (if cmds = [''thread apply all bt''] then library_backtrace
      else if cmds = [''info threads''] then
        ''  2    Thread 0x7f1 (LWP 102) '' @ [CHR 0x22] @ ''worker'' @ [CHR 0x22] @ '' 0x01 in pthread_mutex_lock ()''
      else if cmds = [''thread 2'', ''frame 0'', ''echo ======='' @ [newline], ''info reg'']
        then library_registers
      else if cmds = [''p *(pthread_mutex_t*)0x6020a0'']
        then ''$1 = {__data = {__lock = 2, __count = 0, __owner = 101, __nusers = 1}}''
      else [])"

text \<open>The snapshot \<^const>\<open>parse_thread_state\<close> builds from this session.\<close>

definition library_snapshot :: gdb where
  "library_snapshot =
     \<lparr>threads =
        [\<lparr>name = Some ''worker'', index = 2, addr = ''0x7f1'', lwp = ''102'',
          frames =
            [\<lparr>raw = ''#0  0x01 in pthread_mutex_lock () from /lib/libpthread.so.0'',
              index = 0, addr = Some ''0x01'', in_func = Some ''pthread_mutex_lock'',
              args = None, from_file = Some ''/lib/libpthread.so.0'', at_file = None,
              locked = True, lock_type = Some ''pthread_mutex_t''\<rparr>,
             \<lparr>raw = ''#1  0x02 in helper (x=1) from /lib/libfoo.so'',
              index = 1, addr = Some ''0x02'', in_func = Some ''helper'',
              args = None, from_file = Some ''/lib/libfoo.so'', at_file = None,
              locked = False, lock_type = None\<rparr>,
             \<lparr>raw = ''#2  0x03 in worker (arg=0x0) at dead.c:20'',
              index = 2, addr = Some ''0x03'', in_func = Some ''worker'',
              args = None, from_file = None, at_file = Some ''dead.c:20'',
              locked = False, lock_type = None\<rparr>],
          locked = True, locked_index = Some 0, lock_func = Some ''worker'',
          lock_owner_lwp = Some ''101''\<rparr>,
         \<lparr>name = None, index = 1, addr = ''0x7f2'', lwp = ''101'',
          frames =
            [\<lparr>raw = ''#0  0x04 in main () at dead.c:40'',
              index = 0, addr = Some ''0x04'', in_func = Some ''main'',
              args = None, from_file = None, at_file = Some ''dead.c:40'',
              locked = False, lock_type = None\<rparr>],
          locked = False, locked_index = None, lock_func = None, lock_owner_lwp = None\<rparr>],
      num_locked = 1, deadlock_threads = []\<rparr>"

section \<open>Counting blocked threads\<close>

definition blocking_frames :: "thread \<Rightarrow> nat" where
  "blocking_frames th = length (filter frame.locked (frames th))"

definition blocked_threads :: "gdb \<Rightarrow> nat" where
  "blocked_threads g = length (filter thread.locked (threads g))"

text \<open>
  What the parser maintains: the counter is the number of blocking frames of all threads,
  and a thread is marked blocked exactly if it has a blocking frame.
\<close>

definition counted :: "gdb \<Rightarrow> bool" where
  "counted g =
     (num_locked g = sum_list (map blocking_frames (threads g)) \<and>
      list_all (\<lambda>th. thread.locked th = (0 < blocking_frames th)) (threads g))"

text \<open>
  A debugger session: the only thread waits in \<^verbatim>\<open>__pthread_mutex_lock_full\<close>, called from
  \<^verbatim>\<open>pthread_mutex_lock\<close>; the mutex is owned by LWP 999, which is no thread of the process.
\<close>

definition nested_backtrace :: string where
  "nested_backtrace =
     ''Thread 1 (Thread 0x7f1 (LWP 101))'' @ [newline] @
     ''#0  0x01 in __pthread_mutex_lock_full () from /lib/libpthread.so.0'' @ [newline] @
     ''#1  0x02 in pthread_mutex_lock () from /lib/libpthread.so.0'' @ [newline] @
     ''#2  0x03 in main () at dead.c:40'' @ [newline]"

definition nested_registers :: string where
  "nested_registers =
     ''======='' @ [newline] @
     ''rsi 0x80 128'' @ [newline] @
     ''rdi 0x6020a0 6299808'' @ [newline]"

definition nested_session :: session where
  "nested_session cmds =
     (if cmds = [''thread apply all bt''] then nested_backtrace
      else if cmds = [''thread 1'', ''frame 1'', ''echo ======='' @ [newline], ''info reg'']
        then nested_registers
      else if cmds = [''p *(pthread_mutex_t*)0x6020a0'']
        then ''$1 = {__data = {__lock = 2, __count = 0, __owner = 999, __nusers = 1}}''
      else [])"

definition nested_thread :: thread where
  "nested_thread =
     \<lparr>name = None, index = 1, addr = ''0x7f1'', lwp = ''101'',
      frames =
        [\<lparr>raw = ''#0  0x01 in __pthread_mutex_lock_full () from /lib/libpthread.so.0'',
          index = 0, addr = Some ''0x01'', in_func = Some ''__pthread_mutex_lock_full'',
          args = None, from_file = Some ''/lib/libpthread.so.0'', at_file = None,
          locked = True, lock_type = Some ''pthread_mutex_t''\<rparr>,
         \<lparr>raw = ''#1  0x02 in pthread_mutex_lock () from /lib/libpthread.so.0'',
          index = 1, addr = Some ''0x02'', in_func = Some ''pthread_mutex_lock'',
          args = None, from_file = Some ''/lib/libpthread.so.0'', at_file = None,
          locked = True, lock_type = Some ''pthread_mutex_t''\<rparr>,
         \<lparr>raw = ''#2  0x03 in main () at dead.c:40'',
          index = 2, addr = Some ''0x03'', in_func = Some ''main'',
          args = None, from_file = None, at_file = Some ''dead.c:40'',
          locked = False, lock_type = None\<rparr>],
      locked = True, locked_index = Some 1, lock_func = Some ''main'',
      lock_owner_lwp = Some ''999''\<rparr>"

definition nested_snapshot :: gdb where
  "nested_snapshot = \<lparr>threads = [nested_thread], num_locked = 2, deadlock_threads = []\<rparr>"

section \<open>Inputs on which the run stops\<close>

text \<open>A backtrace through a signal handler, as the debugger prints it.\<close>

definition signal_backtrace :: string where
  "signal_backtrace =
     ''Thread 1 (Thread 0x7f1 (LWP 101))'' @ [newline] @
     ''#0  0x01 in pause () from /lib/libc.so.6'' @ [newline] @
     ''#1  <signal handler called>'' @ [newline] @
     ''#2  0x02 in main () at dead.c:40'' @ [newline]"

definition signal_session :: session where
  "signal_session cmds = (if cmds = [''thread apply all bt''] then signal_backtrace else [])"

text \<open>A snapshot whose blocked thread is named \<^verbatim>\<open>worker\<close>.\<close>

definition named_snapshot :: gdb where
  "named_snapshot =
     \<lparr>threads = [(blocked_thread 2 ''102'' ''101'')\<lparr>name := Some ''worker''\<rparr>,
                 running_thread 1 ''101''],
      num_locked = 1, deadlock_threads = []\<rparr>"

text \<open>A snapshot whose blocked thread has the index 7 and the name \<^verbatim>\<open>7\<close>.\<close>

definition numbered_snapshot :: gdb where
  "numbered_snapshot =
     \<lparr>threads = [(blocked_thread 7 ''107'' ''101'')\<lparr>name := Some ''7''\<rparr>,
                 running_thread 1 ''101''],
      num_locked = 1, deadlock_threads = []\<rparr>"

lemmas thread_defs =
  mutex_frame_def blocked_thread_def main_frame_def running_thread_def

lemmas deadlock_defs =
  find_deadlock_def deadlock_step_def thread_by_lwp_def truthy_def wait_cycle_def
  wait_edge_def wait_edges_def

section \<open>Looking up threads and the pairs of \<^verbatim>\<open>find_deadlock\<close>\<close>

lemma thread_pos_None: "thread_pos ths l = None \<longleftrightarrow> (\<forall>th\<in>set ths. Some (lwp th) \<noteq> l)"
  by (induction ths) auto

lemma thread_pos_Some: "thread_pos ths l = Some i \<Longrightarrow> i < length ths \<and> Some (lwp (ths ! i)) = l"
  by (induction ths arbitrary: i) (auto split: if_splits)

lemma thread_pos_distinct:
  "distinct (map lwp ths) \<Longrightarrow> th \<in> set ths \<Longrightarrow> thread_pos ths (Some (lwp th)) = Some i \<Longrightarrow> ths ! i = th"
proof -
  assume d: "distinct (map lwp ths)" and m: "th \<in> set ths" and p: "thread_pos ths (Some (lwp th)) = Some i"
  from thread_pos_Some[OF p] have i: "i < length ths" and l: "lwp (ths ! i) = lwp th" by auto
  from d have "inj_on lwp (set ths)" by (simp add: distinct_map)
  moreover from i have "ths ! i \<in> set ths" by simp
  ultimately show ?thesis using m l by (auto dest: inj_onD)
qed

lemma thread_pos_member:
  "distinct (map lwp ths) \<Longrightarrow> th \<in> set ths \<Longrightarrow> \<exists>i. thread_pos ths (Some (lwp th)) = Some i \<and> ths ! i = th"
proof -
  assume d: "distinct (map lwp ths)" and m: "th \<in> set ths"
  have "thread_pos ths (Some (lwp th)) \<noteq> None" using m by (auto simp: thread_pos_None)
  then obtain i where "thread_pos ths (Some (lwp th)) = Some i" by auto
  with thread_pos_distinct[OF d m] show ?thesis by auto
qed

lemma deadlock_step_mem:
  "(a, b) \<in> set (fst (deadlock_step ths th)) \<longleftrightarrow>
     a = th \<and> thread.locked th \<and>
     (\<exists>i. thread_pos ths (lock_owner_lwp th) = Some i \<and> b = ths ! i \<and> thread.locked b \<and>
          truthy (lock_owner_lwp b) \<and> lock_owner_lwp b = Some (lwp th))"
  by (auto simp: deadlock_step_def thread_by_lwp_def Let_def split: option.splits)

lemma deadlock_loop_fst:
  "fst (deadlock_loop ths xs) = concat (map (\<lambda>th. fst (deadlock_step ths th)) xs)"
  by (induction xs) (auto split: prod.splits)

lemma deadlock_loop_mem:
  "(a, b) \<in> set (fst (deadlock_loop ths xs)) \<longleftrightarrow>
     a \<in> set xs \<and> thread.locked a \<and>
     (\<exists>i. thread_pos ths (lock_owner_lwp a) = Some i \<and> b = ths ! i \<and> thread.locked b \<and>
          truthy (lock_owner_lwp b) \<and> lock_owner_lwp b = Some (lwp a))"
  unfolding deadlock_loop_fst by (auto simp: deadlock_step_mem)

lemma wait_edges_mem:
  "e \<in> set (wait_edges ths) \<longleftrightarrow> (\<exists>th\<in>set ths. wait_edge ths th = Some e)"
  by (force simp: wait_edges_def List.map_filter_def)

lemma deadlock_pair_edges:
  assumes "(a, b) \<in> set (fst (deadlock_loop ths ths))"
  shows "(lwp a, lwp b) \<in> set (wait_edges ths) \<and> (lwp b, lwp a) \<in> set (wait_edges ths)"
proof -
  from assms obtain i where a: "a \<in> set ths" "thread.locked a"
    and i: "thread_pos ths (lock_owner_lwp a) = Some i" and b: "b = ths ! i" "thread.locked b"
    and o: "lock_owner_lwp b = Some (lwp a)"
    by (auto simp: deadlock_loop_mem)
  from thread_pos_Some[OF i] have bm: "b \<in> set ths" using b by simp
  have "wait_edge ths a = Some (lwp a, lwp b)" using a i b by (simp add: wait_edge_def)
  moreover
  have "thread_pos ths (Some (lwp a)) \<noteq> None" using a by (auto simp: thread_pos_None)
  then obtain j where j: "thread_pos ths (Some (lwp a)) = Some j" by auto
  from thread_pos_Some[OF j] have "lwp (ths ! j) = lwp a" by simp
  then have "wait_edge ths b = Some (lwp b, lwp a)" using b o j by (simp add: wait_edge_def)
  ultimately show ?thesis using a bm by (auto simp: wait_edges_mem)
qed

lemma deadlock_step_mutual:
  assumes "distinct (map lwp ths)" "a \<in> set ths" "b \<in> set ths"
    "thread.locked a" "lock_owner_lwp a = Some (lwp b)"
    "thread.locked b" "lock_owner_lwp b = Some (lwp a)" "lwp a \<noteq> []"
  shows "fst (deadlock_step ths a) = [(a, b)]"
proof -
  from thread_pos_member[OF assms(1,3)] obtain i where
    "thread_pos ths (Some (lwp b)) = Some i" "ths ! i = b" by auto
  then show ?thesis using assms
    by (simp add: deadlock_step_def thread_by_lwp_def truthy_def)
qed

lemma deadlock_step_shape:
  "fst (deadlock_step ths th) = [] \<or> (\<exists>b. fst (deadlock_step ths th) = [(th, b)])"
  by (auto simp: deadlock_step_def thread_by_lwp_def Let_def split: option.splits)

lemma deadlock_step_no_edge:
  "wait_edge ths th = None \<Longrightarrow> fst (deadlock_step ths th) = []"
  by (auto simp: deadlock_step_def wait_edge_def thread_by_lwp_def Let_def split: option.splits if_splits)

lemma sum_indicator:
  "distinct xs \<Longrightarrow> x \<in> set xs \<Longrightarrow> sum_list (map (\<lambda>y. if y = x then 1 else 0) xs) = (1::nat)"
proof (induction xs)
  case Nil then show ?case by simp
next
  case (Cons y ys)
  have z: "x \<notin> set ys \<Longrightarrow> sum_list (map (\<lambda>y. if y = x then 1 else 0) ys) = (0::nat)"
    by (induction ys) auto
  show ?case using Cons z by auto
qed

lemma count_deadlock_pair:
  assumes d: "distinct (map lwp ths)" and a: "a \<in> set ths" and s: "fst (deadlock_step ths a) = [(a, b)]"
  shows "count_list (fst (deadlock_loop ths ths)) (a, b) = 1"
proof -
  have ds: "distinct ths" using d by (simp add: distinct_map)
  have "count_list (fst (deadlock_step ths th)) (a, b) = (if th = a then 1 else 0)" for th
    using deadlock_step_shape[of ths th] s by auto
  then have "count_list (fst (deadlock_loop ths ths)) (a, b) =
        sum_list (map (\<lambda>th. if th = a then 1 else 0) ths)"
    by (simp add: deadlock_loop_fst count_list_concat comp_def)
  also have "\<dots> = 1" using sum_indicator[OF ds a] .
  finally show ?thesis .
qed

lemma cycle_index_step:
  assumes "p < k" "Suc (Suc p mod k) mod k = p"
  shows "k \<le> 2"
proof (rule ccontr)
  assume "\<not> k \<le> 2"
  then have k: "3 \<le> k" by simp
  show False
  proof (cases "Suc p < k")
    case True
    then have "Suc (Suc p) mod k = p" using assms(2) by simp
    then show False using True k by (cases "Suc (Suc p) < k") (auto simp: mod_Suc)
  next
    case False
    with assms(1) have "Suc p = k" by simp
    then have "Suc p mod k = 0" by simp
    with assms(2) have "Suc 0 mod k = p" by simp
    with k \<open>Suc p = k\<close> show False by simp
  qed
qed

lemma cycle_pair_short:
  assumes c: "wait_cycle ths cyc" and m: "(a, b) \<in> set (fst (deadlock_loop ths ths))"
  shows "length cyc \<le> 2"
proof -
  let ?k = "length cyc"
  from c have d: "distinct (map lwp ths)" and dc: "distinct cyc" and sub: "set cyc \<subseteq> set ths"
    and nxt: "\<And>i. i < ?k \<Longrightarrow> lock_owner_lwp (cyc ! i) = Some (lwp (cyc ! (Suc i mod ?k)))"
    and rest: "\<And>th. th \<in> set ths \<Longrightarrow> th \<in> set cyc \<or> wait_edge ths th = None"
    by (auto simp: wait_cycle_def list_all_iff)
  have inj: "inj_on lwp (set ths)" using d by (simp add: distinct_map)
  from m obtain i where am: "a \<in> set ths" and al: "thread.locked a"
    and i: "thread_pos ths (lock_owner_lwp a) = Some i" and b: "b = ths ! i"
    and o: "lock_owner_lwp b = Some (lwp a)"
    by (auto simp: deadlock_loop_mem)
  have "wait_edge ths a \<noteq> None" using al i by (simp add: wait_edge_def)
  with rest[OF am] have "a \<in> set cyc" by auto
  then obtain p where p: "p < ?k" "a = cyc ! p" by (auto simp: in_set_conv_nth)
  have kp: "0 < ?k" using p(1) by auto
  let ?q = "Suc p mod ?k"
  have q: "?q < ?k" using kp by simp
  have cq: "cyc ! ?q \<in> set ths" using q sub by (meson nth_mem subsetD)
  have "b = cyc ! ?q" using thread_pos_distinct[OF d cq] i nxt[OF p(1)] p(2) b by simp
  let ?r = "Suc ?q mod ?k"
  have r: "?r < ?k" using kp by simp
  have cr: "cyc ! ?r \<in> set ths" using r sub by (meson nth_mem subsetD)
  have "lwp (cyc ! ?r) = lwp (cyc ! p)" using nxt[OF q] o \<open>b = cyc ! ?q\<close> p(2) by simp
  then have "cyc ! ?r = cyc ! p" using inj cr am p(2) by (auto dest: inj_onD)
  then have "?r = p" using dc r p(1) by (simp add: nth_eq_iff_index_eq)
  then show ?thesis using cycle_index_step[OF p(1)] by simp
qed

lemma length_concat_indicator:
  "(\<And>x. x \<in> set xs \<Longrightarrow> length (f x) = (if P x then 1 else 0)) \<Longrightarrow>
   length (concat (map f xs)) = length (filter P xs)"
  by (induction xs) auto

lemma acyclic_no_pairs:
  assumes "acyclic (set (wait_edges ths))"
  shows "fst (deadlock_loop ths ths) = []"
proof (rule ccontr)
  assume "fst (deadlock_loop ths ths) \<noteq> []"
  then obtain a b where "(a, b) \<in> set (fst (deadlock_loop ths ths))"
    by (cases "fst (deadlock_loop ths ths)") auto
  from deadlock_pair_edges[OF this]
  have "(lwp a, lwp a) \<in> (set (wait_edges ths))\<^sup>+" by (meson trancl.intros)
  with assms show False by (simp add: acyclic_def)
qed

section \<open>Claims about the cycle detector\<close>

text \<open>
  C1, as stated, fails: in Scenario B the three threads form a cycle of the wait graph and
  \<^const>\<open>find_deadlock\<close> reports nothing.
\<close>

theorem scenario_B_not_reported:
  "wait_cycle (threads scenario_B) (threads scenario_B) \<and>
   length (threads scenario_B) = 3 \<and>
   deadlock_threads (fst (find_deadlock scenario_B)) = []"
  by (simp add: scenario_B_def thread_defs deadlock_defs upt_rec)

text \<open>
  C1, amended. \<^const>\<open>find_deadlock\<close> is a check of pairs: when the wait edges of a snapshot
  with unique, non-empty LWPs form one directed cycle of length \<open>k \<ge> 2\<close>, the deadlock list
  holds the two ordered pairs of the cycle's threads if \<open>k = 2\<close>, and is empty if
  \<open>k \<ge> 3\<close>, so for \<open>k = 3, 4, 5\<close>.
\<close>

theorem cycle_reported_only_if_pair:
  assumes e: "deadlock_threads g = []" and c: "wait_cycle (threads g) cyc"
    and k2: "2 \<le> length cyc" and ne: "\<forall>th\<in>set cyc. lwp th \<noteq> []"
  shows "set (deadlock_threads (fst (find_deadlock g))) =
           (if length cyc = 2 then {(cyc ! 0, cyc ! 1), (cyc ! 1, cyc ! 0)} else {}) \<and>
         length (deadlock_threads (fst (find_deadlock g))) = (if length cyc = 2 then 2 else 0)"
proof -
  let ?ths = "threads g"
  let ?dl = "fst (deadlock_loop ?ths ?ths)"
  have dl: "deadlock_threads (fst (find_deadlock g)) = ?dl"
    using e by (simp add: find_deadlock_def split: prod.splits)
  have long: "?dl = []" if "3 \<le> length cyc"
  proof (rule ccontr)
    assume "?dl \<noteq> []"
    then obtain a b where "(a, b) \<in> set ?dl" by (cases ?dl) auto
    from cycle_pair_short[OF c this] that show False by simp
  qed
  have pair: "set ?dl = {(cyc ! 0, cyc ! 1), (cyc ! 1, cyc ! 0)} \<and> length ?dl = 2"
    if k: "length cyc = 2"
  proof -
    let ?a = "cyc ! 0" and ?b = "cyc ! 1"
    from k have cyc: "cyc = [?a, ?b]"
      by (cases cyc; cases "tl cyc") auto
    from c have d: "distinct (map lwp ?ths)" and dc: "distinct cyc" and sub: "set cyc \<subseteq> set ?ths"
      and nxt: "\<And>i. i < length cyc \<Longrightarrow> thread.locked (cyc ! i) \<and>
                   lock_owner_lwp (cyc ! i) = Some (lwp (cyc ! (Suc i mod length cyc)))"
      and rest: "\<And>th. th \<in> set ?ths \<Longrightarrow> th \<in> set cyc \<or> wait_edge ?ths th = None"
      by (auto simp: wait_cycle_def list_all_iff)
    have ds: "distinct ?ths" using d by (simp add: distinct_map)
    have ab: "?a \<noteq> ?b" using dc cyc by (metis distinct_length_2_or_more)
    have am: "?a \<in> set ?ths" and bm: "?b \<in> set ?ths" using sub cyc by (metis list.set_intros subsetD)+
    have la: "thread.locked ?a" "lock_owner_lwp ?a = Some (lwp ?b)" using nxt[of 0] k by auto
    have lb: "thread.locked ?b" "lock_owner_lwp ?b = Some (lwp ?a)" using nxt[of 1] k by auto
    have na: "lwp ?a \<noteq> []" "lwp ?b \<noteq> []" using ne cyc by (metis list.set_intros)+
    have s1: "fst (deadlock_step ?ths ?a) = [(?a, ?b)]"
      using d am bm la lb na by (intro deadlock_step_mutual) auto
    have s2: "fst (deadlock_step ?ths ?b) = [(?b, ?a)]"
      using d am bm la lb na by (intro deadlock_step_mutual) auto
    have s3: "fst (deadlock_step ?ths th) = []" if "th \<in> set ?ths" "th \<noteq> ?a" "th \<noteq> ?b" for th
    proof -
      have "th \<notin> set cyc" using that cyc by (metis empty_iff empty_set set_ConsD)
      with rest[OF that(1)] show ?thesis by (auto intro: deadlock_step_no_edge)
    qed
    have set_eq: "set ?dl = {(?a, ?b), (?b, ?a)}"
    proof -
      have form: "fst (deadlock_step ?ths th) =
          (if th = ?a then [(?a, ?b)] else if th = ?b then [(?b, ?a)] else [])"
        if "th \<in> set ?ths" for th
        using s1 s2 s3[OF that] by auto
      have "set ?dl = (\<Union>th\<in>set ?ths. set (fst (deadlock_step ?ths th)))"
        by (simp add: deadlock_loop_fst)
      also have "\<dots> = {(?a, ?b), (?b, ?a)}"
      proof (intro equalityI subsetI)
        fix x assume "x \<in> (\<Union>th\<in>set ?ths. set (fst (deadlock_step ?ths th)))"
        then obtain th where "th \<in> set ?ths" "x \<in> set (fst (deadlock_step ?ths th))" by auto
        with form[of th] show "x \<in> {(?a, ?b), (?b, ?a)}" by (auto split: if_splits)
      next
        fix x assume "x \<in> {(?a, ?b), (?b, ?a)}"
        then consider "x = (?a, ?b)" | "x = (?b, ?a)" by auto
        then show "x \<in> (\<Union>th\<in>set ?ths. set (fst (deadlock_step ?ths th)))"
        proof cases
          case 1 then show ?thesis using am s1 by (intro UN_I[of ?a]) auto
        next
          case 2 then show ?thesis using bm s2 by (intro UN_I[of ?b]) auto
        qed
      qed
      finally show ?thesis .
    qed
    have "length ?dl = length (filter (\<lambda>th. th \<in> {?a, ?b}) ?ths)"
      unfolding deadlock_loop_fst
      by (rule length_concat_indicator) (use s1 s2 s3 in auto)
    also have "\<dots> = card ({th. th \<in> {?a, ?b}} \<inter> set ?ths)"
      using ds by (rule distinct_length_filter)
    also have "{th. th \<in> {?a, ?b}} \<inter> set ?ths = {?a, ?b}" using am bm by auto
    also have "card {?a, ?b} = 2" using ab by simp
    finally show ?thesis using set_eq by simp
  qed
  show ?thesis
  proof (cases "length cyc = 2")
    case True
    with pair show ?thesis unfolding dl by simp
  next
    case False
    with k2 have "3 \<le> length cyc" by simp
    with long False show ?thesis unfolding dl by simp
  qed
qed

theorem cycle_reported_only_if_pair_witness:
  "set (deadlock_threads (fst (find_deadlock scenario_A))) =
     {(blocked_thread 1 ''101'' ''102'', blocked_thread 2 ''102'' ''101''),
      (blocked_thread 2 ''102'' ''101'', blocked_thread 1 ''101'' ''102'')} \<and>
   length (deadlock_threads (fst (find_deadlock scenario_A))) = 2 \<and>
   set (deadlock_threads (fst (find_deadlock scenario_B))) = {} \<and>
   length (deadlock_threads (fst (find_deadlock scenario_B))) = 0"
proof -
  have a1: "deadlock_threads scenario_A = []" by (simp add: scenario_A_def thread_defs)
  have a2: "wait_cycle (threads scenario_A) (threads scenario_A)"
    by (simp add: scenario_A_def thread_defs deadlock_defs upt_rec)
  have a3: "2 \<le> length (threads scenario_A)" by (simp add: scenario_A_def thread_defs)
  have a4: "\<forall>th\<in>set (threads scenario_A). lwp th \<noteq> []" by (simp add: scenario_A_def thread_defs)
  have b1: "deadlock_threads scenario_B = []" by (simp add: scenario_B_def thread_defs)
  have b2: "wait_cycle (threads scenario_B) (threads scenario_B)"
    by (simp add: scenario_B_def thread_defs deadlock_defs upt_rec)
  have b3: "2 \<le> length (threads scenario_B)" by (simp add: scenario_B_def thread_defs)
  have b4: "\<forall>th\<in>set (threads scenario_B). lwp th \<noteq> []" by (simp add: scenario_B_def thread_defs)
  have la: "length (threads scenario_A) = 2" and lb: "length (threads scenario_B) = 3"
    by (simp_all add: scenario_A_def scenario_B_def thread_defs)
  have na: "threads scenario_A ! 0 = blocked_thread 1 ''101'' ''102''"
           "threads scenario_A ! 1 = blocked_thread 2 ''102'' ''101''"
    by (simp_all add: scenario_A_def)
  show ?thesis
    using cycle_reported_only_if_pair [OF a1 a2 a3 a4]
          cycle_reported_only_if_pair [OF b1 b2 b3 b4]
    unfolding la lb na by simp
qed

text \<open>
  C2, as stated, fails: in Scenario A the deadlock list has two entries, the pair and its
  reversal, and the report prints one line for each.
\<close>

theorem scenario_A_reported_twice:
  "deadlock_threads (fst (find_deadlock scenario_A)) =
     [(blocked_thread 1 ''101'' ''102'', blocked_thread 2 ''102'' ''101''),
      (blocked_thread 2 ''102'' ''101'', blocked_thread 1 ''101'' ''102'')] \<and>
   print_status (fst (find_deadlock scenario_A)) False [] =
     Inr [Is_waiting_for ''Thread #1'' None ''Thread #2'',
          Is_waiting_for ''Thread #2'' None ''Thread #1'',
          Deadlock_between ''Thread #1'' ''Thread #2'',
          Deadlock_between ''Thread #2'' ''Thread #1'']"
  by (simp add: scenario_A_def thread_defs deadlock_defs print_status_def show_thread_def readable_def
      str_int_def digit_char_def digits_def)

text \<open>
  C2, amended. In a snapshot with unique LWPs, two different threads, each blocked on a
  mutex owned by the (non-empty) LWP of the other, are reported twice: the deadlock list
  holds the pair once and the reversed pair once, and no other entry names either thread.
  Nothing removes the reversal.
\<close>

theorem mutual_wait_reported_twice:
  assumes "deadlock_threads g = []" "distinct (map lwp (threads g))"
    "t1 \<in> set (threads g)" "t2 \<in> set (threads g)" "t1 \<noteq> t2"
    "thread.locked t1" "lock_owner_lwp t1 = Some (lwp t2)"
    "thread.locked t2" "lock_owner_lwp t2 = Some (lwp t1)"
    "lwp t1 \<noteq> []" "lwp t2 \<noteq> []"
  shows "count_list (deadlock_threads (fst (find_deadlock g))) (t1, t2) = 1 \<and>
         count_list (deadlock_threads (fst (find_deadlock g))) (t2, t1) = 1 \<and>
         (\<forall>(a, b)\<in>set (deadlock_threads (fst (find_deadlock g))).
            a \<in> {t1, t2} \<or> b \<in> {t1, t2} \<longrightarrow> (a, b) = (t1, t2) \<or> (a, b) = (t2, t1))"
proof -
  let ?ths = "threads g"
  let ?dl = "fst (deadlock_loop ?ths ?ths)"
  have dl: "deadlock_threads (fst (find_deadlock g)) = ?dl"
    using assms(1) by (simp add: find_deadlock_def split: prod.splits)
  have s1: "fst (deadlock_step ?ths t1) = [(t1, t2)]"
    using assms by (intro deadlock_step_mutual) auto
  have s2: "fst (deadlock_step ?ths t2) = [(t2, t1)]"
    using assms by (intro deadlock_step_mutual) auto
  have c1: "count_list ?dl (t1, t2) = 1" using count_deadlock_pair[OF assms(2,3) s1] .
  have c2: "count_list ?dl (t2, t1) = 1" using count_deadlock_pair[OF assms(2,4) s2] .
  have only: "(a, b) = (t1, t2) \<or> (a, b) = (t2, t1)"
    if m: "(a, b) \<in> set ?dl" and ab: "a \<in> {t1, t2} \<or> b \<in> {t1, t2}" for a b
  proof -
    from m obtain i where am: "a \<in> set ?ths"
      and i: "thread_pos ?ths (lock_owner_lwp a) = Some i" and b: "b = ?ths ! i"
      and o: "lock_owner_lwp b = Some (lwp a)"
      by (auto simp: deadlock_loop_mem)
    have inj: "inj_on lwp (set ?ths)" using assms(2) by (simp add: distinct_map)
    have bm: "b \<in> set ?ths" using thread_pos_Some[OF i] b by simp
    show ?thesis
    proof (cases "a \<in> {t1, t2}")
      case True
      then show ?thesis using i b thread_pos_distinct[OF assms(2)] assms(3,4,7,9) by auto
    next
      case False
      with ab have "b \<in> {t1, t2}" by simp
      then have "lwp a = lwp t1 \<or> lwp a = lwp t2" using o assms(7,9) by auto
      then have "a = t1 \<or> a = t2" using inj am assms(3,4) by (auto dest: inj_onD)
      with False show ?thesis by simp
    qed
  qed
  show ?thesis unfolding dl using c1 c2 only by auto
qed

theorem mutual_wait_reported_twice_witness:
  "count_list (deadlock_threads (fst (find_deadlock scenario_A)))
     (blocked_thread 1 ''101'' ''102'', blocked_thread 2 ''102'' ''101'') = 1 \<and>
   count_list (deadlock_threads (fst (find_deadlock scenario_A)))
     (blocked_thread 2 ''102'' ''101'', blocked_thread 1 ''101'' ''102'') = 1"
proof -
  let ?t1 = "blocked_thread 1 ''101'' ''102''" and ?t2 = "blocked_thread 2 ''102'' ''101''"
  have h1: "deadlock_threads scenario_A = []" by (simp add: scenario_A_def thread_defs)
  have h2: "distinct (map lwp (threads scenario_A))" by (simp add: scenario_A_def thread_defs)
  have h3: "?t1 \<in> set (threads scenario_A)" "?t2 \<in> set (threads scenario_A)"
    by (simp_all add: scenario_A_def)
  have h4: "?t1 \<noteq> ?t2" by (simp add: blocked_thread_def)
  have h5: "thread.locked ?t1" "lock_owner_lwp ?t1 = Some (lwp ?t2)"
           "thread.locked ?t2" "lock_owner_lwp ?t2 = Some (lwp ?t1)"
           "lwp ?t1 \<noteq> []" "lwp ?t2 \<noteq> []"
    by (simp_all add: blocked_thread_def)
  from mutual_wait_reported_twice [OF h1 h2 h3 h4 h5] show ?thesis by simp
qed

text \<open>
  C7. When the wait graph of a snapshot is acyclic, \<^const>\<open>find_deadlock\<close>, started with
  the empty deadlock list of a new \<^verbatim>\<open>GDB\<close> object, leaves the list empty: no deadlock is
  reported.
\<close>

theorem acyclic_no_deadlock:
  assumes "deadlock_threads g = []" and "acyclic (set (wait_edges (threads g)))"
  shows "deadlock_threads (fst (find_deadlock g)) = []"
  using assms(1) acyclic_no_pairs[OF assms(2)]
  by (auto simp: find_deadlock_def split: prod.splits)

theorem acyclic_no_deadlock_witness:
  "acyclic (set (wait_edges (threads scenario_chain))) \<and>
   deadlock_threads (fst (find_deadlock scenario_chain)) = []"
proof -
  have h1: "deadlock_threads scenario_chain = []" by (simp add: scenario_chain_def thread_defs)
  have h2: "acyclic (set (wait_edges (threads scenario_chain)))"
  proof -
    have "acyclic ({} :: (string \<times> string) set)" by (simp add: acyclic_def)
    then show ?thesis by (simp add: scenario_chain_def thread_defs deadlock_defs acyclic_insert)
  qed
  from acyclic_no_deadlock [OF h1 h2] h2 show ?thesis by simp
qed

section \<open>Evaluating the parser on the concrete sessions\<close>

lemmas prim_defs =
  str_find_def contains_def split_lines_def newline_def str_split_def isspace_def digits_def
  digit_val_def isdigit_def strip_def py_int_def digit_char_def str_int_def truthy_def
  push_def open_group_def close_group_def re_match_def lit_def lower_def upper_def
  word_class_def func_class_def file_class_def hex_class_def item_def sep_def

lemmas parse_defs =
  owner_pattern_def read_owner_def parse_locked_state_def base_pattern_def in_pattern_def
  at_pattern_def from_pattern_def found_keywords_def frame_pattern_def new_frame_def
  set_locators_def classify_def parse_def new_thread_def add_frame_def thread_pattern_def
  name_pattern_def emit_def thread_by_lwp_def set_thread_name_def above_def set_lock_def
  set_locks_def deadlock_step_def find_deadlock_def new_gdb_def parse_thread_state_def


lemma library_parsed:
  "parse_thread_state library_session new_gdb = Inr (library_snapshot, [])"
  by (simp add: library_session_def library_backtrace_def library_registers_def
      library_snapshot_def prim_defs parse_defs)

lemma nested_parsed:
  "parse_thread_state nested_session new_gdb =
     Inr (nested_snapshot, [Did_not_find (Some ''999'') [''101'']])"
  by (simp add: nested_session_def nested_backtrace_def nested_registers_def
      nested_snapshot_def nested_thread_def prim_defs parse_defs)

text \<open>Scenarios A and B are the snapshots parsed from their sessions.\<close>

lemmas session_defs =
  mutex_stack_def register_query_def mutex_registers_def mutex_dump_def

lemma scenario_A_parsed:
  "parse_thread_state session_A new_gdb =
     Inr (scenario_A\<lparr>deadlock_threads :=
            [(blocked_thread 1 ''101'' ''102'', blocked_thread 2 ''102'' ''101''),
             (blocked_thread 2 ''102'' ''101'', blocked_thread 1 ''101'' ''102'')]\<rparr>, [])"
  by (simp add: session_A_def scenario_A_def session_defs thread_defs prim_defs parse_defs)

lemma scenario_B_parsed:
  "parse_thread_state session_B new_gdb = Inr (scenario_B, [])"
  by (simp add: session_B_def scenario_B_def session_defs thread_defs prim_defs parse_defs)

section \<open>Groups of a match\<close>

text \<open>
  A successful match returns one string for each group of the pattern, so the group
  accesses \<^verbatim>\<open>match.group(1)\<close>, \<^verbatim>\<open>match.group(2)\<close> and \<^verbatim>\<open>match.groups()[0]\<close> of the
  source are in range.
\<close>

lemma rx_match_groups:
  "rx_match p s g = Some r \<Longrightarrow> length r = length (fst g) + group_count p (snd g \<noteq> None)"
proof (induction p s g arbitrary: r rule: rx_match.induct)
  case (4 p s g)
  then show ?case by (simp add: open_group_def)
next
  case (5 p s g)
  then show ?case by (cases "snd g") (simp_all add: close_group_def)
qed (auto simp: push_def split: if_splits option.splits)

lemma re_search_groups:
  "re_search p s = Some r \<Longrightarrow> length r = group_count p False"
  by (induction s) (auto simp: re_match_def split: option.splits dest: rx_match_groups)

lemma owner_pattern_groups: "re_search owner_pattern s = Some r \<Longrightarrow> length r = 1"
  by (drule re_search_groups) (simp add: owner_pattern_def lit_def)

lemma name_pattern_groups: "re_search name_pattern s = Some r \<Longrightarrow> length r = 2"
  by (drule re_search_groups) (simp add: name_pattern_def lit_def)

section \<open>What the parser maintains\<close>

lemma emit_Inr: "emit out r = Inr (g, out') \<Longrightarrow> \<exists>out''. r = Inr (g, out'')"
  by (auto simp: emit_def split: sum.splits)

lemma add_frame_Inr:
  assumes "add_frame get_output th n line = Inr (th', n', out)"
  shows "\<exists>f. frames th' = frames th @ [f] \<and> n' = n + (if frame.locked f then 1 else 0) \<and>
             thread.locked th' = (thread.locked th \<or> frame.locked f)"
  using assms
  by (auto simp: add_frame_def Let_def split: sum.splits prod.splits option.splits if_splits)

lemma add_frame_blocking:
  assumes "add_frame get_output th n line = Inr (th', n', out)"
  shows "n' + blocking_frames th = n + blocking_frames th'"
    and "thread.locked th = (0 < blocking_frames th) \<Longrightarrow> thread.locked th' = (0 < blocking_frames th')"
  using add_frame_Inr[OF assms] by (auto simp: blocking_frames_def)

lemma new_thread_Inr:
  "new_thread a b c = Inr th \<Longrightarrow> blocking_frames th = 0 \<and> \<not> thread.locked th"
  by (auto simp: new_thread_def blocking_frames_def split: sum.splits)

lemma counted_append:
  "counted g \<Longrightarrow> blocking_frames th = 0 \<Longrightarrow> \<not> thread.locked th \<Longrightarrow>
   counted (g\<lparr>threads := threads g @ [th]\<rparr>)"
  by (simp add: counted_def)

lemma counted_update:
  assumes c: "counted g" and i: "i < length (threads g)"
    and n: "n' + blocking_frames (threads g ! i) = n + blocking_frames th'" "n = num_locked g"
    and l: "thread.locked th' = (0 < blocking_frames th')"
  shows "counted (g\<lparr>threads := (threads g)[i := th'], num_locked := n'\<rparr>)"
proof -
  let ?bs = "map blocking_frames (threads g)"
  have "sum_list (map blocking_frames ((threads g)[i := th'])) =
        sum_list ?bs + blocking_frames th' - ?bs ! i"
    using i by (simp add: map_update sum_list_update)
  moreover have "?bs ! i \<le> sum_list ?bs" using i by (simp add: member_le_sum_list)
  moreover have "?bs ! i = blocking_frames (threads g ! i)" using i by simp
  ultimately have s: "sum_list (map blocking_frames ((threads g)[i := th'])) = n'"
    using c n by (simp add: counted_def)
  have "list_all (\<lambda>th. thread.locked th = (0 < blocking_frames th)) ((threads g)[i := th'])"
    using c l by (auto simp: counted_def list_all_iff dest: set_update_subset_insert[THEN subsetD])
  with s show ?thesis by (simp add: counted_def)
qed

lemma parse_lines_counted:
  "parse_lines get_output lines g cur = Inr (g', out) \<Longrightarrow> counted g \<Longrightarrow>
   (\<forall>i. cur = Some i \<longrightarrow> i < length (threads g)) \<Longrightarrow> counted g'"
proof (induction lines arbitrary: g cur out)
  case Nil
  then show ?case by simp
next
  case (Cons line lines)
  show ?case
  proof (cases cur)
    case None
    note cur = None
    show ?thesis
    proof (cases "str_find line ''Thread '' = 0")
      case False
      with cur Cons.prems(1) have "parse_lines get_output lines g None = Inr (g', out)" by simp
      from Cons.IH[OF this Cons.prems(2)] show ?thesis by simp
    next
      case True
      note hdr = True
      show ?thesis
      proof (cases "re_match thread_pattern line")
        case None
        with cur hdr Cons.prems(1) obtain out' where
          "parse_lines get_output lines g None = Inr (g', out')"
          by (auto dest: emit_Inr)
        from Cons.IH[OF this Cons.prems(2)] show ?thesis by simp
      next
        case (Some data)
        with cur hdr Cons.prems(1) obtain th d0 d1 d2 where
          th: "new_thread d0 d1 d2 = Inr th" and
          r: "parse_lines get_output lines (g\<lparr>threads := threads g @ [th]\<rparr>)
                (Some (length (threads g))) = Inr (g', out)"
          by (auto split: sum.splits)
        have "counted (g\<lparr>threads := threads g @ [th]\<rparr>)"
          using counted_append[OF Cons.prems(2)] new_thread_Inr[OF th] by simp
        from Cons.IH[OF r this] show ?thesis by simp
      qed
    qed
  next
    case (Some i)
    note cur = Some
    with Cons.prems(3) have i: "i < length (threads g)" by simp
    show ?thesis
    proof (cases line)
      case Nil
      with cur Cons.prems(1) have "parse_lines get_output lines g None = Inr (g', out)" by simp
      from Cons.IH[OF this Cons.prems(2)] show ?thesis by simp
    next
      case (Cons c cs)
      note line = Cons
      show ?thesis
      proof (cases "c = CHR ''#''")
        case False
        with cur line Cons.prems(1) obtain out' where
          "parse_lines get_output lines g (Some i) = Inr (g', out')"
          by (auto dest: emit_Inr)
        from Cons.IH[OF this Cons.prems(2)] i show ?thesis by simp
      next
        case True
        with cur line Cons.prems(1) obtain th n out1 out' where
          a: "add_frame get_output (threads g ! i) (num_locked g) line = Inr (th, n, out1)" and
          r: "parse_lines get_output lines
                (g\<lparr>threads := (threads g)[i := th], num_locked := n\<rparr>) (Some i) = Inr (g', out')"
          by (auto split: sum.splits dest: emit_Inr)
        have old: "thread.locked (threads g ! i) = (0 < blocking_frames (threads g ! i))"
          using Cons.prems(2) i by (simp add: counted_def list_all_length)
        have "counted (g\<lparr>threads := (threads g)[i := th], num_locked := n\<rparr>)"
          using counted_update[OF Cons.prems(2) i add_frame_blocking(1)[OF a] refl
                  add_frame_blocking(2)[OF a old]] .
        from Cons.IH[OF r this] i show ?thesis by simp
      qed
    qed
  qed
qed

lemma parse_lines_deadlock_threads:
  "parse_lines get_output lines g cur = Inr (g', out) \<Longrightarrow> deadlock_threads g' = deadlock_threads g"
proof (induction lines arbitrary: g cur out)
  case Nil
  then show ?case by simp
next
  case (Cons line lines)
  from Cons.prems show ?case
    by (auto split: option.splits list.splits if_splits sum.splits prod.splits
        dest!: emit_Inr Cons.IH)
qed

lemma set_thread_name_same:
  "map blocking_frames (fst (set_thread_name ths l n)) = map blocking_frames ths \<and>
   map thread.locked (fst (set_thread_name ths l n)) = map thread.locked ths"
  by (auto simp: set_thread_name_def thread_by_lwp_def map_update blocking_frames_def
      list_update_same_conv split: option.splits dest: thread_pos_Some)

lemma name_lines_same:
  "map blocking_frames (fst (name_lines lines ths)) = map blocking_frames ths \<and>
   map thread.locked (fst (name_lines lines ths)) = map thread.locked ths"
proof (induction lines arbitrary: ths)
  case Nil
  then show ?case by simp
next
  case (Cons line lines)
  show ?case
  proof (cases "re_search name_pattern line")
    case None
    then show ?thesis using Cons.IH by simp
  next
    case (Some grps)
    then show ?thesis
      using Cons.IH[of "fst (set_thread_name ths (grps ! 0) (grps ! 1))"]
        set_thread_name_same[of ths "grps ! 0" "grps ! 1"]
      by (simp add: case_prod_unfold Let_def)
  qed
qed

lemma set_locks_same:
  "map blocking_frames (set_locks ths) = map blocking_frames ths \<and>
   map thread.locked (set_locks ths) = map thread.locked ths"
  by (simp add: set_locks_def set_lock_def blocking_frames_def)

lemma counted_maps:
  "counted g = (num_locked g = sum_list (map blocking_frames (threads g)) \<and>
     list_all (\<lambda>p. fst p = (0 < snd p)) (zip (map thread.locked (threads g)) (map blocking_frames (threads g))))"
  by (simp add: counted_def list_all_length)

lemma parse_thread_state_parts:
  assumes "parse_thread_state get_output g0 = Inr (g, out)"
  obtains g1 out1 ths2 where
    "parse_lines get_output (split_lines (get_output [''thread apply all bt''])) g0 None = Inr (g1, out1)"
    "ths2 = fst (name_lines (split_lines (get_output [''info threads''])) (threads g1))"
    "threads g = set_locks ths2" "num_locked g = num_locked g1"
    "deadlock_threads g = deadlock_threads g1 @ fst (deadlock_loop (threads g) (threads g))"
  using assms
  by (auto simp: parse_thread_state_def find_deadlock_def Let_def split: sum.splits prod.splits)

lemma parse_thread_state_counted:
  assumes "parse_thread_state get_output new_gdb = Inr (g, out)"
  shows "counted g"
proof -
  from assms obtain g1 out1 ths2 where
    p: "parse_lines get_output (split_lines (get_output [''thread apply all bt''])) new_gdb None = Inr (g1, out1)"
    and n: "ths2 = fst (name_lines (split_lines (get_output [''info threads''])) (threads g1))"
    and t: "threads g = set_locks ths2" and c: "num_locked g = num_locked g1"
    by (rule parse_thread_state_parts)
  have "counted new_gdb" by (simp add: counted_def new_gdb_def)
  from parse_lines_counted[OF p this] have "counted g1" by simp
  moreover have "map blocking_frames (threads g) = map blocking_frames (threads g1)"
    "map thread.locked (threads g) = map thread.locked (threads g1)"
    using t n set_locks_same[of ths2] name_lines_same by simp_all
  ultimately show ?thesis using c by (simp add: counted_maps)
qed

lemma parse_thread_state_deadlocks:
  assumes "parse_thread_state get_output new_gdb = Inr (g, out)"
  shows "deadlock_threads g = fst (deadlock_loop (threads g) (threads g))"
proof -
  from assms obtain g1 out1 where
    p: "parse_lines get_output (split_lines (get_output [''thread apply all bt''])) new_gdb None = Inr (g1, out1)"
    and d: "deadlock_threads g = deadlock_threads g1 @ fst (deadlock_loop (threads g) (threads g))"
    by (rule parse_thread_state_parts)
  from parse_lines_deadlock_threads[OF p] have "deadlock_threads g1 = []" by (simp add: new_gdb_def)
  with d show ?thesis by simp
qed

text \<open>So a parsed snapshot with an acyclic wait graph has an empty deadlock list.\<close>

lemma acyclic_snapshot_no_deadlock:
  assumes "parse_thread_state get_output new_gdb = Inr (g, out)"
    and "acyclic (set (wait_edges (threads g)))"
  shows "deadlock_threads g = []"
  using parse_thread_state_deadlocks[OF assms(1)] acyclic_no_pairs[OF assms(2)] by simp

lemma blocked_le_blocking:
  "list_all (\<lambda>th. thread.locked th = (0 < blocking_frames th)) ths \<Longrightarrow>
   length (filter thread.locked ths) \<le> sum_list (map blocking_frames ths) \<and>
   ((sum_list (map blocking_frames ths) = length (filter thread.locked ths)) =
      list_all (\<lambda>th. blocking_frames th \<le> 1) ths)"
proof (induction ths)
  case Nil
  then show ?case by simp
next
  case (Cons th ths)
  then have ih: "length (filter thread.locked ths) \<le> sum_list (map blocking_frames ths)"
    "(sum_list (map blocking_frames ths) = length (filter thread.locked ths)) =
      list_all (\<lambda>th. blocking_frames th \<le> 1) ths"
    and l: "thread.locked th = (0 < blocking_frames th)"
    by simp_all
  show ?case
  proof (cases "thread.locked th")
    case True
    with l have "1 \<le> blocking_frames th" by simp
    with True ih show ?thesis by auto
  next
    case False
    with l have "blocking_frames th = 0" by simp
    with False ih show ?thesis by simp
  qed
qed

lemma parse_thread_state_set_locks:
  assumes "parse_thread_state get_output g0 = Inr (g, out)" and "th \<in> set (threads g)"
  shows "\<exists>t. th = set_lock t"
proof -
  from assms(1) obtain ths2 where "threads g = set_locks ths2"
    by (rule parse_thread_state_parts)
  with assms(2) show ?thesis by (auto simp: set_locks_def)
qed

lemma scan_lock_func_find:
  "scan_lock_func li fs =
     (case List.find (\<lambda>f. above (frame.index f) li \<and> truthy (at_file f) \<and> truthy (in_func f)) fs of
        None \<Rightarrow> None | Some f \<Rightarrow> in_func f)"
  by (induction fs) auto

lemma set_lock_fields:
  "frames (set_lock th) = frames th" "locked_index (set_lock th) = locked_index th"
  "thread.locked (set_lock th) = thread.locked th"
  by (simp_all add: set_lock_def)

lemma set_lock_source_caller:
  "thread.locked th \<Longrightarrow> lock_func (set_lock th) = source_caller (set_lock th)"
  by (simp add: set_lock_def source_caller_def scan_lock_func_find)

lemma filter_threads_all: "filter_threads [] ths = Inr (filter thread.locked ths)"
  by (induction ths) auto

lemma show_thread_no_owner:
  "thread_pos ths (lock_owner_lwp th) = None \<Longrightarrow>
   No_owner_for (readable th) \<in> set (show_thread ths show_bt th)"
  by (simp add: show_thread_def thread_by_lwp_def)

section \<open>The register scan\<close>




section \<open>The locators of a frame\<close>

text \<open>Whatever the line, a parsed frame never has both locators.\<close>

lemma set_locators_one:
  "set_locators found data f = Inr f' \<Longrightarrow> from_file f = None \<Longrightarrow> at_file f = None \<Longrightarrow>
   from_file f' = None \<or> at_file f' = None"
  by (auto simp: set_locators_def Let_def split: if_splits sum.splits)

lemma classify_locators:
  "from_file (classify f) = from_file f \<and> at_file (classify f) = at_file f"
  by (simp add: classify_def)

lemma parse_one_locator:
  assumes "parse get_output i line = Inr (f, owner, out)"
  shows "from_file f = None \<or> at_file f = None"
proof (cases "re_match (frame_pattern (found_keywords line)) line")
  case None
  with assms show ?thesis by (auto simp: parse_def new_frame_def)
next
  case (Some data)
  with assms obtain d0 d1 k f1 where
    "set_locators (found_keywords line) data
       ((new_frame line)\<lparr>frame.index := k, frame.addr := Some d1\<rparr>) = Inr f1"
    and f: "f = classify f1"
    by (auto simp: parse_def Let_def split: sum.splits if_splits prod.splits)
  from set_locators_one[OF this(1)] have "from_file f1 = None \<or> at_file f1 = None"
    by (simp add: new_frame_def)
  with f show ?thesis by (simp add: classify_locators)
qed

section \<open>Claims about the parser\<close>

text \<open>
  C3 fails on the code: parsing can raise. A frame line without \<^verbatim>\<open> in \<close>, \<^verbatim>\<open> from \<close> and
  \<^verbatim>\<open> at \<close>, such as the line the debugger prints for a signal handler, matches the base
  pattern with two groups, and the branch \<^verbatim>\<open>elif 'at':\<close>, which is always taken, reads a
  third group: \<^verbatim>\<open>IndexError\<close> ends the run in the middle of the backtrace.
\<close>

theorem signal_frame_stops_parsing:
  "parse_thread_state signal_session new_gdb = Inl IndexError"
  by (simp add: signal_session_def signal_backtrace_def prim_defs parse_defs)

text \<open>
  A frame marker without an index matches the base pattern with an empty first group, and
  \<^verbatim>\<open>int('', 10)\<close> raises \<^verbatim>\<open>ValueError\<close>; the line is not given the invalid index.
\<close>

lemma empty_index_stops_parsing:
  "parse get_output i ''#'' = Inl ValueError"
  by (simp add: prim_defs parse_defs)

text \<open>
  C4 fails on the code: a frame line with \<^verbatim>\<open> from \<close> and without \<^verbatim>\<open> in \<close> and \<^verbatim>\<open> at \<close>
  gets the module as its at-source locator and no from-module locator.
\<close>

theorem from_module_stored_as_at_file:
  "parse (\<lambda>cmds. []) 1 ''#0  foo () from /lib/libfoo.so'' =
     Inr (\<lparr>raw = ''#0  foo () from /lib/libfoo.so'', index = 0, addr = Some ''foo'',
           in_func = None, args = None, from_file = None, at_file = Some ''/lib/libfoo.so'',
           locked = False, lock_type = None\<rparr>, None, [])"
  by (simp add: prim_defs parse_defs)

text \<open>
  C5, as stated, fails: a thread with two frames in lock functions is marked blocked once
  and counted twice.
\<close>

theorem nested_lock_counted_twice:
  "parse_thread_state nested_session new_gdb =
     Inr (nested_snapshot, [Did_not_find (Some ''999'') [''101'']]) \<and>
   num_locked nested_snapshot = 2 \<and> blocked_threads nested_snapshot = 1"
  using nested_parsed by (simp add: nested_snapshot_def nested_thread_def blocked_threads_def)

text \<open>
  C5, amended. For every parsed snapshot the counter \<^verbatim>\<open>num_locked\<close> is the number of
  blocking frames of all threads. It is at least the number of threads marked blocked,
  and equal to it exactly if no thread has more than one blocking frame.
\<close>

theorem num_locked_counts_blocking_frames:
  assumes "parse_thread_state get_output new_gdb = Inr (g, out)"
  shows "num_locked g = sum_list (map blocking_frames (threads g)) \<and>
         blocked_threads g \<le> num_locked g \<and>
         (num_locked g = blocked_threads g) = list_all (\<lambda>th. blocking_frames th \<le> 1) (threads g)"
proof -
  from parse_thread_state_counted[OF assms]
  have n: "num_locked g = sum_list (map blocking_frames (threads g))"
    and l: "list_all (\<lambda>th. thread.locked th = (0 < blocking_frames th)) (threads g)"
    by (simp_all add: counted_def)
  from blocked_le_blocking[OF l] n show ?thesis by (simp add: blocked_threads_def)
qed

theorem num_locked_counts_blocking_frames_witness:
  "num_locked library_snapshot = sum_list (map blocking_frames (threads library_snapshot)) \<and>
   blocked_threads library_snapshot \<le> num_locked library_snapshot \<and>
   num_locked library_snapshot = blocked_threads library_snapshot \<and>
   blocked_threads library_snapshot = 1"
  using num_locked_counts_blocking_frames [OF library_parsed]
  by (simp add: library_snapshot_def blocked_threads_def blocking_frames_def)

text \<open>
  C6. In a parsed snapshot, a blocked thread whose owner LWP is the LWP of no thread
  contributes no wait edge and is in no deadlock pair, on either side; the report without
  filter prints \<^verbatim>\<open>No owner for\<close> this thread; and a snapshot all of whose blocked threads
  are such has an empty deadlock list.
\<close>

theorem unknown_owner_no_edge:
  assumes p: "parse_thread_state get_output new_gdb = Inr (g, out)"
    and m: "th \<in> set (threads g)" and l: "thread.locked th"
    and u: "\<forall>t\<in>set (threads g). lock_owner_lwp th \<noteq> Some (lwp t)"
  shows "wait_edge (threads g) th = None \<and>
         (\<forall>(a, b)\<in>set (deadlock_threads g). a \<noteq> th \<and> b \<noteq> th) \<and>
         (\<exists>report. print_status g show_bt [] = Inr report \<and>
                    No_owner_for (readable th) \<in> set report) \<and>
         ((\<forall>t\<in>set (threads g). thread.locked t \<longrightarrow>
              (\<forall>t'\<in>set (threads g). lock_owner_lwp t \<noteq> Some (lwp t'))) \<longrightarrow>
          deadlock_threads g = [])"
proof -
  let ?ths = "threads g"
  have pos: "thread_pos ?ths (lock_owner_lwp th) = None" using u by (auto simp: thread_pos_None)
  have d: "deadlock_threads g = fst (deadlock_loop ?ths ?ths)"
    using parse_thread_state_deadlocks[OF p] .
  have e: "wait_edge ?ths th = None" using pos by (simp add: wait_edge_def)
  have pairs: "a \<noteq> th \<and> b \<noteq> th" if "(a, b) \<in> set (deadlock_threads g)" for a b
  proof -
    from that d obtain i where a: "a \<in> set ?ths"
      and i: "thread_pos ?ths (lock_owner_lwp a) = Some i" and b: "b = ?ths ! i"
      and o: "lock_owner_lwp b = Some (lwp a)"
      by (auto simp: deadlock_loop_mem)
    from i pos have "a \<noteq> th" by auto
    moreover from o a u have "b \<noteq> th" by auto
    ultimately show ?thesis by simp
  qed
  have c: "counted g" using parse_thread_state_counted[OF p] .
  then have "0 < blocking_frames th" using m l by (auto simp: counted_def list_all_iff)
  moreover have "blocking_frames th \<le> sum_list (map blocking_frames ?ths)"
    using m by (simp add: member_le_sum_list)
  moreover have "num_locked g = sum_list (map blocking_frames ?ths)"
    using c by (simp add: counted_def)
  ultimately have n: "num_locked g \<noteq> 0" by linarith
  have "No_owner_for (readable th) \<in> set (show_thread ?ths show_bt th)"
    using pos by (rule show_thread_no_owner)
  then have r: "\<exists>report. print_status g show_bt [] = Inr report \<and>
                    No_owner_for (readable th) \<in> set report"
    using n m l by (auto simp: print_status_def filter_threads_all)
  have none: "deadlock_threads g = []"
    if all: "\<forall>t\<in>set ?ths. thread.locked t \<longrightarrow> (\<forall>t'\<in>set ?ths. lock_owner_lwp t \<noteq> Some (lwp t'))"
  proof (rule ccontr)
    assume "deadlock_threads g \<noteq> []"
    then obtain a b where "(a, b) \<in> set (deadlock_threads g)"
      by (cases "deadlock_threads g") auto
    with d obtain i where a: "a \<in> set ?ths" "thread.locked a"
      and i: "thread_pos ?ths (lock_owner_lwp a) = Some i"
      by (auto simp: deadlock_loop_mem)
    from thread_pos_Some[OF i] have "?ths ! i \<in> set ?ths" "lock_owner_lwp a = Some (lwp (?ths ! i))"
      by simp_all
    with all a show False by blast
  qed
  from e pairs r none show ?thesis by blast
qed

theorem unknown_owner_no_edge_witness:
  "nested_thread \<in> set (threads nested_snapshot) \<and> thread.locked nested_thread \<and>
   lock_owner_lwp nested_thread = Some ''999'' \<and>
   wait_edge (threads nested_snapshot) nested_thread = None \<and>
   deadlock_threads nested_snapshot = [] \<and>
   print_status nested_snapshot False [] =
     Inr [Did_not_find (Some ''999'') [''101''], No_owner_for ''Thread #1'']"
proof -
  have m: "nested_thread \<in> set (threads nested_snapshot)" by (simp add: nested_snapshot_def)
  have l: "thread.locked nested_thread" by (simp add: nested_thread_def)
  have u: "\<forall>t\<in>set (threads nested_snapshot). lock_owner_lwp nested_thread \<noteq> Some (lwp t)"
    by (simp add: nested_snapshot_def nested_thread_def)
  have a: "\<forall>t\<in>set (threads nested_snapshot). thread.locked t \<longrightarrow>
             (\<forall>t'\<in>set (threads nested_snapshot). lock_owner_lwp t \<noteq> Some (lwp t'))"
    by (simp add: nested_snapshot_def nested_thread_def)
  have r: "print_status nested_snapshot False [] =
     Inr [Did_not_find (Some ''999'') [''101''], No_owner_for ''Thread #1'']"
    by (simp add: nested_snapshot_def nested_thread_def print_status_def show_thread_def
        thread_by_lwp_def readable_def str_int_def digit_char_def digits_def truthy_def)
  have o: "lock_owner_lwp nested_thread = Some ''999''" by (simp add: nested_thread_def)
  from unknown_owner_no_edge [OF nested_parsed m l u, of False] a m l r o
  show ?thesis by simp
qed

text \<open>
  C8, as stated, fails: when the lock function is called from a library frame without
  source location, that frame, the one entered immediately after the blocking call, is
  passed over and the next frame with a source location is recorded.
\<close>

theorem library_caller_skipped:
  "parse_thread_state library_session new_gdb = Inr (library_snapshot, []) \<and>
   thread.locked (threads library_snapshot ! 0) \<and>
   lock_func (threads library_snapshot ! 0) = Some ''worker'' \<and>
   claimed_lock_func (threads library_snapshot ! 0) = Some ''helper''"
  using library_parsed
  by (simp add: library_snapshot_def claimed_lock_func_def above_def)

text \<open>
  C8, amended. For every thread of a parsed snapshot that is marked blocked, the recorded
  function name is the called-function name of the first frame, in stack order, whose
  index is greater than the recorded index of the blocking frame and which has both a
  non-empty at-source locator and a non-empty function name; it is \<^verbatim>\<open>None\<close> if there is
  no such frame.
\<close>

theorem lock_func_is_source_caller:
  assumes "parse_thread_state get_output new_gdb = Inr (g, out)"
    and "th \<in> set (threads g)" and "thread.locked th"
  shows "lock_func th = source_caller th"
proof -
  from parse_thread_state_set_locks[OF assms(1,2)] obtain t where t: "th = set_lock t" by auto
  with assms(3) have "thread.locked t" by (simp add: set_lock_fields)
  from set_lock_source_caller[OF this] t show ?thesis by simp
qed

theorem lock_func_is_source_caller_witness:
  "threads library_snapshot ! 0 \<in> set (threads library_snapshot) \<and>
   thread.locked (threads library_snapshot ! 0) \<and>
   lock_func (threads library_snapshot ! 0) = source_caller (threads library_snapshot ! 0) \<and>
   source_caller (threads library_snapshot ! 0) = Some ''worker''"
proof -
  have m: "threads library_snapshot ! 0 \<in> set (threads library_snapshot)"
    by (simp add: library_snapshot_def)
  have l: "thread.locked (threads library_snapshot ! 0)" by (simp add: library_snapshot_def)
  have s: "source_caller (threads library_snapshot ! 0) = Some ''worker''"
    by (simp add: library_snapshot_def source_caller_def above_def truthy_def)
  from lock_func_is_source_caller [OF library_parsed m l] m l s show ?thesis by simp
qed

text \<open>
  C9 fails on the code: every entry of the filter is converted with \<^verbatim>\<open>int(x, 10)\<close>, so a
  thread name in the filter raises \<^verbatim>\<open>ValueError\<close> as soon as a blocked thread is looked at.
\<close>

theorem name_filter_raises:
  "print_status named_snapshot False [''worker''] = Inl ValueError"
  by (simp add: named_snapshot_def blocked_thread_def running_thread_def print_status_def
      prim_defs)

text \<open>The same snapshot filtered by the index of the thread is reported.\<close>

lemma index_filter_reports:
  "print_status named_snapshot False [''2''] =
     Inr [Is_waiting_for ''Thread #2 worker'' None ''Thread #1'']"
  by (simp add: named_snapshot_def blocked_thread_def running_thread_def print_status_def
      prim_defs show_thread_def thread_by_lwp_def readable_def)

text \<open>
  A thread whose index and name are both in the filter is listed twice.
\<close>

lemma index_and_name_listed_twice:
  "print_status numbered_snapshot False [''7''] =
     Inr [Is_waiting_for ''Thread #7 7'' None ''Thread #1'',
          Is_waiting_for ''Thread #7 7'' None ''Thread #1'']"
  by (simp add: numbered_snapshot_def blocked_thread_def running_thread_def print_status_def
      prim_defs show_thread_def thread_by_lwp_def readable_def)



end
